theory Spec2Isabelle
  imports Complex_Main
begin

section \<open>Python strings\<close>

text \<open>
  A Python \<open>str\<close> is a sequence of Unicode code points; \<open>len\<close>, slicing and
  \<open>strip\<close> count code points. A string is therefore a list of code points, each a
  natural number. ASCII literals are written through \<open>ascii\<close>.
\<close>

type_synonym ustr = "nat list"

definition ascii :: "string \<Rightarrow> ustr" where
  "ascii s = map of_char s"

text \<open>
  \<open>str.isspace\<close> of one code point: the characters of bidirectional class WS, B or S
  and of category Zs, which is what \<open>strip()\<close> and \<open>split()\<close> without argument
  remove.
\<close>

definition isspace :: "nat \<Rightarrow> bool" where
  "isspace c \<longleftrightarrow>
     (9 \<le> c \<and> c \<le> 13) \<or> (28 \<le> c \<and> c \<le> 32) \<or> c = 133 \<or> c = 160 \<or> c = 5760 \<or>
     (8192 \<le> c \<and> c \<le> 8202) \<or> c = 8232 \<or> c = 8233 \<or> c = 8239 \<or> c = 8287 \<or> c = 12288"

definition strip :: "ustr \<Rightarrow> ustr" where
  "strip s = rev (dropWhile isspace (rev (dropWhile isspace s)))"

text \<open>
  \<open>text[i:j]\<close>: a negative index counts from the end, and both indices are clamped to
  the string; an empty range gives the empty string.
\<close>

definition slice_index :: "nat \<Rightarrow> int \<Rightarrow> nat" where
  "slice_index n i = (if i < 0 then nat (max 0 (int n + i)) else min n (nat i))"

definition py_slice :: "'a list \<Rightarrow> int \<Rightarrow> int \<Rightarrow> 'a list" where
  "py_slice xs i j =
     (let lo = slice_index (length xs) i; hi = slice_index (length xs) j
      in take (hi - lo) (drop lo xs))"

section \<open>The chunker (\<open>PDFProcessor.split_text_into_chunks\<close>)\<close>

text \<open>
  The \<open>while start < text_length\<close> loop, with its two variables \<open>start\<close> and
  \<open>chunks\<close>. Nothing in the source checks \<open>overlap < chunk_size\<close>, so the loop may run
  forever: not returning is the value \<open>None\<close>.
\<close>

partial_function (option) chunk_loop ::
  "ustr \<Rightarrow> int \<Rightarrow> int \<Rightarrow> int \<Rightarrow> ustr list \<Rightarrow> ustr list option" where
  "chunk_loop text chunk_size overlap start chunks =
     (if start < int (length text)
      then chunk_loop text chunk_size overlap (start + (chunk_size - overlap))
             (if strip (py_slice text start (start + chunk_size)) \<noteq> []
              then chunks @ [py_slice text start (start + chunk_size)]
              else chunks)
      else Some chunks)"

declare chunk_loop.simps [code]

definition split_text_into_chunks :: "ustr \<Rightarrow> int \<Rightarrow> int \<Rightarrow> ustr list option" where
  "split_text_into_chunks text chunk_size overlap = chunk_loop text chunk_size overlap 0 []"

subsection \<open>The windows as the specification words them\<close>

text \<open>\<open>\<lceil>a / b\<rceil>\<close> on integers.\<close>

definition ceil_div :: "int \<Rightarrow> int \<Rightarrow> int" where
  "ceil_div a b = - ((- a) div b)"

text \<open>Window \<open>k\<close> is \<open>text[k*(S-O) : k*(S-O)+S]\<close>.\<close>

definition window :: "ustr \<Rightarrow> int \<Rightarrow> int \<Rightarrow> nat \<Rightarrow> ustr" where
  "window text S O' k = py_slice text (int k * (S - O')) (int k * (S - O') + S)"

text \<open>The number of \<open>k\<close> with \<open>k*(S-O) < len(text)\<close>, for a positive step.\<close>

definition window_count :: "ustr \<Rightarrow> int \<Rightarrow> int \<Rightarrow> nat" where
  "window_count text S O' = nat (ceil_div (int (length text)) (S - O'))"

definition spec_windows :: "ustr \<Rightarrow> int \<Rightarrow> int \<Rightarrow> ustr list" where
  "spec_windows text S O' = map (window text S O') [0..<window_count text S O']"

text \<open>A window is kept when something is left of it after trimming.\<close>

definition nonblank :: "ustr \<Rightarrow> bool" where
  "nonblank w \<longleftrightarrow> strip w \<noteq> []"

definition shared_part :: "ustr \<Rightarrow> int \<Rightarrow> int \<Rightarrow> nat \<Rightarrow> ustr" where
  "shared_part text S O' k = py_slice text (int (Suc k) * (S - O')) (int k * (S - O') + S)"

section \<open>External services\<close>

text \<open>
  The embedding endpoint, the vector search and the chat endpoint are remote services. Each
  is a function of the calls made so far and of the arguments of the call, returning the
  exception it raises or its result; the program's state is the trace of the calls made.
\<close>

datatype exn = AttributeError ustr ustr | Error ustr

definition str_exn :: "exn \<Rightarrow> ustr" where
  "str_exn e = (case e of
       AttributeError ty attr \<Rightarrow>
         [39] @ ty @ [39] @ ascii '' object has no attribute '' @ [39] @ attr @ [39]
     | Error msg \<Rightarrow> msg)"

datatype event = EmbedCall ustr | RetrieveCall ustr int | ChatCall ustr ustr

type_synonym trace = "event list"

type_synonym 'e embed_api = "trace \<Rightarrow> ustr \<Rightarrow> exn + 'e"

type_synonym doc = "ustr \<rightharpoonup> ustr"

type_synonym retrieve_api = "trace \<Rightarrow> ustr \<Rightarrow> int \<Rightarrow> exn + doc list"

type_synonym chat_api = "trace \<Rightarrow> ustr \<Rightarrow> ustr \<Rightarrow> exn + ustr"

fun is_chat_call :: "event \<Rightarrow> bool" where
  "is_chat_call (ChatCall _ _) = True"
| "is_chat_call _ = False"

fun is_retrieve_call :: "event \<Rightarrow> bool" where
  "is_retrieve_call (RetrieveCall _ _) = True"
| "is_retrieve_call _ = False"

section \<open>The ingestion of one file (\<open>PDFProcessor.process_pdf\<close>)\<close>

record 'e document =
  content :: ustr
  embedding :: 'e
  source :: ustr
  page :: nat
  chunk_index :: nat

text \<open>\<open>s.split(sep)\<close> for a separator of one character: never an empty list.\<close>

fun split_on :: "nat \<Rightarrow> ustr \<Rightarrow> ustr \<Rightarrow> ustr list" where
  "split_on sep cur [] = [cur]"
| "split_on sep cur (c # cs) =
     (if c = sep then cur # split_on sep [] cs else split_on sep (cur @ [c]) cs)"

definition py_split :: "nat \<Rightarrow> ustr \<Rightarrow> ustr list" where
  "py_split sep s = split_on sep [] s"

text \<open>\<open>pdf_path.split("/")[-1]\<close>\<close>

definition file_name :: "ustr \<Rightarrow> ustr" where
  "file_name pdf_path = last (py_split 47 pdf_path)"

text \<open>
  \<open>extract_text_from_pdf\<close>, from the texts of the pages that the PDF reader returns:
  pages are numbered from 1 and a page that is blank after trimming is left out.
\<close>

definition extract_text_from_pdf :: "ustr list \<Rightarrow> (nat \<times> ustr) list" where
  "extract_text_from_pdf pages =
     filter (\<lambda>(page_num, text). strip text \<noteq> []) (zip [1..<Suc (length pages)] pages)"

definition generate_embedding :: "'e embed_api \<Rightarrow> trace \<Rightarrow> ustr \<Rightarrow> (exn + 'e) \<times> trace" where
  "generate_embedding api tr text = (api tr text, tr @ [EmbedCall text])"

text \<open>
  The loop over the chunks of one page. Its state is \<open>documents\<close>, \<open>chunk_counter\<close> and the
  trace. The \<open>except Exception\<close> branch only prints, and the loop goes on.
\<close>

fun embed_chunks ::
  "'e embed_api \<Rightarrow> ustr \<Rightarrow> nat \<Rightarrow> ustr list \<Rightarrow> 'e document list \<times> nat \<times> trace
     \<Rightarrow> 'e document list \<times> nat \<times> trace" where
  "embed_chunks api pdf_path page_num [] st = st"
| "embed_chunks api pdf_path page_num (chunk # rest) (documents, chunk_counter, tr) =
     (case generate_embedding api tr chunk of
        (Inr emb, tr') \<Rightarrow>
          embed_chunks api pdf_path page_num rest
            (documents @ [\<lparr>content = chunk, embedding = emb, source = file_name pdf_path,
                           page = page_num, chunk_index = chunk_counter\<rparr>],
             chunk_counter + 1, tr')
      | (Inl e, tr') \<Rightarrow>
          embed_chunks api pdf_path page_num rest (documents, chunk_counter, tr'))"

text \<open>The loop over the pages; a page whose chunking does not return stops everything.\<close>

fun process_pages ::
  "'e embed_api \<Rightarrow> ustr \<Rightarrow> int \<Rightarrow> int \<Rightarrow> (nat \<times> ustr) list
     \<Rightarrow> 'e document list \<times> nat \<times> trace \<Rightarrow> ('e document list \<times> nat \<times> trace) option" where
  "process_pages api pdf_path chunk_size overlap [] st = Some st"
| "process_pages api pdf_path chunk_size overlap ((page_num, text) # rest) st =
     (case split_text_into_chunks text chunk_size overlap of
        None \<Rightarrow> None
      | Some chunks \<Rightarrow>
          process_pages api pdf_path chunk_size overlap rest
            (embed_chunks api pdf_path page_num chunks st))"

definition process_pdf ::
  "'e embed_api \<Rightarrow> trace \<Rightarrow> ustr \<Rightarrow> ustr list \<Rightarrow> int \<Rightarrow> int
     \<Rightarrow> ('e document list \<times> trace) option" where
  "process_pdf api tr pdf_path pages chunk_size overlap =
     (case process_pages api pdf_path chunk_size overlap (extract_text_from_pdf pages) ([], 0, tr) of
        None \<Rightarrow> None
      | Some (documents, chunk_counter, tr') \<Rightarrow> Some (documents, tr'))"

subsection \<open>What the file's chunks and the embedded ones are\<close>

text \<open>The chunks of the file in the order they are met, each with its page number.\<close>

definition file_chunks :: "ustr list \<Rightarrow> int \<Rightarrow> int \<Rightarrow> (nat \<times> ustr) list" where
  "file_chunks pages S O' =
     concat (map (\<lambda>(page_num, text). map (Pair page_num) (filter nonblank (spec_windows text S O')))
                 (extract_text_from_pdf pages))"

text \<open>
  One embedding call for each chunk in turn; the chunks whose call returned, with the
  embedding it returned.
\<close>

fun embedded :: "'e embed_api \<Rightarrow> trace \<Rightarrow> (nat \<times> ustr) list \<Rightarrow> (nat \<times> ustr \<times> 'e) list" where
  "embedded api tr [] = []"
| "embedded api tr ((page_num, chunk) # rest) =
     (case api tr chunk of Inr emb \<Rightarrow> [(page_num, chunk, emb)] | Inl e \<Rightarrow> [])
     @ embedded api (tr @ [EmbedCall chunk]) rest"

section \<open>More of Python's strings\<close>

text \<open>\<open>s.split()\<close>: the maximal runs of characters that are not whitespace.\<close>

fun split_ws :: "ustr \<Rightarrow> ustr \<Rightarrow> ustr list" where
  "split_ws cur [] = (if cur = [] then [] else [cur])"
| "split_ws cur (c # cs) =
     (if isspace c then (if cur = [] then split_ws [] cs else cur # split_ws [] cs)
      else split_ws (cur @ [c]) cs)"

definition py_split_ws :: "ustr \<Rightarrow> ustr list" where
  "py_split_ws s = split_ws [] s"

text \<open>\<open>w in s\<close> on strings: \<open>w\<close> occurs in \<open>s\<close> as a substring.\<close>

fun contains :: "ustr \<Rightarrow> ustr \<Rightarrow> bool" where
  "contains w [] = (w = [])"
| "contains w (c # cs) = (take (length w) (c # cs) = w \<or> contains w cs)"

text \<open>\<open>sep.join(xs)\<close>\<close>

fun join :: "ustr \<Rightarrow> ustr list \<Rightarrow> ustr" where
  "join sep [] = []"
| "join sep [x] = x"
| "join sep (x # y # ys) = x @ sep @ join sep (y # ys)"

text \<open>
  \<open>str.lower\<close> follows the Unicode case tables, which are no part of this program: the
  functions below take it as the parameter \<open>lower\<close>. \<open>ascii_lower\<close> is what it does on
  ASCII text.
\<close>

definition ascii_lower :: "ustr \<Rightarrow> ustr" where
  "ascii_lower s = map (\<lambda>c. if 65 \<le> c \<and> c \<le> 90 then c + 32 else c) s"

text \<open>\<open>d.get(key, default)\<close>\<close>

definition doc_get :: "doc \<Rightarrow> ustr \<Rightarrow> ustr \<Rightarrow> ustr" where
  "doc_get d key dflt = (case d key of None \<Rightarrow> dflt | Some v \<Rightarrow> v)"

text \<open>
  \<open>list({...})\<close>: the distinct elements, in the order the set's hash table iterates them.
  That order is no part of this program: it is the parameter \<open>order\<close>, applied to the
  elements in the order of their first insertion.
\<close>

definition list_of_set :: "(ustr list \<Rightarrow> ustr list) \<Rightarrow> ustr list \<Rightarrow> ustr list" where
  "list_of_set order xs = order (remdups xs)"

section \<open>The generator (\<open>GPTGenerator.generate_answer\<close>)\<close>

definition NO_INFO :: ustr where
  "NO_INFO = ascii ''I don't have that information in the available documents.''"

definition system_prompt :: ustr where
  "system_prompt =
     ascii ''You are an HR assistant. Answer based ONLY on the provided context. ''
     @ ascii ''If the answer exists, give a clear, descriptive response in 2'' @ [8211]
     @ ascii ''3 sentences. ''
     @ ascii ''If nothing relevant is found, say: 'I don't have that information in the available documents.' ''
     @ ascii ''Do not guess or invent details.''"

definition user_prompt :: "ustr \<Rightarrow> ustr \<Rightarrow> ustr" where
  "user_prompt query context =
     ascii ''Context:'' @ [10] @ context @ [10, 10] @ ascii ''Question: '' @ query @ [10]
     @ ascii ''Answer:''"

text \<open>
  The chat call and everything after it are inside the \<open>try\<close>: \<open>Inl e\<close> is any exception
  raised there, also one raised by reading the reply.
\<close>

definition generate_answer :: "chat_api \<Rightarrow> trace \<Rightarrow> ustr \<Rightarrow> ustr \<Rightarrow> ustr \<times> trace" where
  "generate_answer chat tr query context =
     (if context = [] \<or> contains (ascii ''No relevant documents'') context
      then (NO_INFO, tr)
      else (case chat tr system_prompt (user_prompt query context) of
              Inr reply \<Rightarrow>
                (strip reply, tr @ [ChatCall system_prompt (user_prompt query context)])
            | Inl e \<Rightarrow>
                (ascii ''Error generating answer: '' @ str_exn e,
                 tr @ [ChatCall system_prompt (user_prompt query context)])))"

section \<open>The retriever as the front ends call it\<close>

definition retrieve_documents ::
  "retrieve_api \<Rightarrow> trace \<Rightarrow> ustr \<Rightarrow> int \<Rightarrow> (exn + doc list) \<times> trace" where
  "retrieve_documents retrieve tr query top_k =
     (retrieve tr query top_k, tr @ [RetrieveCall query top_k])"

section \<open>The two front ends\<close>

text \<open>
  The list comprehension of both front ends: the pieces of the context between periods
  that contain a word of the query, both in lower case.
\<close>

definition relevant_sentences :: "(ustr \<Rightarrow> ustr) \<Rightarrow> ustr \<Rightarrow> ustr \<Rightarrow> ustr list" where
  "relevant_sentences lower query context =
     filter (\<lambda>s. list_ex (\<lambda>word. contains word (lower s)) (py_split_ws (lower query)))
            (py_split 46 context)"

definition found_prefix :: ustr where
  "found_prefix = ascii ''Here'' @ [8217] @ ascii ''s what I found: ''"

definition sources_header :: ustr where
  "sources_header = [10, 10] @ ascii ''**Sources:**'' @ [10]"

subsection \<open>\<open>rag_chatbot.answer_question\<close>\<close>

definition rag_answer_question ::
  "retrieve_api \<Rightarrow> chat_api \<Rightarrow> (ustr \<Rightarrow> ustr) \<Rightarrow> trace \<Rightarrow> ustr \<Rightarrow> (exn + ustr) \<times> trace" where
  "rag_answer_question retrieve chat lower tr query =
     (case retrieve_documents retrieve tr query 3 of
        (Inl e, tr1) \<Rightarrow> (Inl e, tr1)
      | (Inr results, tr1) \<Rightarrow>
          if results = [] then (Inr NO_INFO, tr1)
          else
            let context = join [10, 10] (map (\<lambda>d. doc_get d (ascii ''content'') []) results);
                (answer, tr2) = generate_answer chat tr1 query context;
                answer' =
                  (if length (py_split_ws answer) < 10
                   then (case relevant_sentences lower query context of
                           s # _ \<Rightarrow> found_prefix @ strip s @ ascii ''.''
                         | [] \<Rightarrow> NO_INFO)
                   else answer);
                sources = sources_header
                  @ join [10] (map (\<lambda>d. doc_get d (ascii ''source'') (ascii ''Unknown'')) results)
            in (Inr (answer' @ sources), tr2))"

subsection \<open>\<open>flask_chatbot.answer_question\<close>\<close>

datatype json = JNull | JBool bool | JInt int | JFloat real | JStr ustr
  | JArr "json list" | JObj "(ustr \<times> json) list"

fun py_type_name :: "json \<Rightarrow> ustr" where
  "py_type_name JNull = ascii ''NoneType''"
| "py_type_name (JBool _) = ascii ''bool''"
| "py_type_name (JInt _) = ascii ''int''"
| "py_type_name (JFloat _) = ascii ''float''"
| "py_type_name (JStr _) = ascii ''str''"
| "py_type_name (JArr _) = ascii ''list''"
| "py_type_name (JObj _) = ascii ''dict''"

datatype response_body = ErrorBody ustr | AnswerBody ustr "ustr list"

type_synonym response = "response_body \<times> nat"

text \<open>The \<open>except Exception\<close> of the handler.\<close>

definition internal_error :: "exn \<Rightarrow> response" where
  "internal_error e = (ErrorBody (ascii ''Internal Server Error: '' @ str_exn e), 500)"

text \<open>
  The request is what \<open>request.get_json(force=True)\<close> gives: the exception it raises on a
  body that is not JSON, or the value parsed, which may be any JSON value.
\<close>

definition flask_answer_question ::
  "retrieve_api \<Rightarrow> chat_api \<Rightarrow> (ustr \<Rightarrow> ustr) \<Rightarrow> (ustr list \<Rightarrow> ustr list) \<Rightarrow> trace
     \<Rightarrow> exn + json \<Rightarrow> response \<times> trace" where
  "flask_answer_question retrieve chat lower order tr request_json =
     (case request_json of
        Inl e \<Rightarrow> (internal_error e, tr)
      | Inr (JObj items) \<Rightarrow>
          (case (case map_of items (ascii ''query'') of None \<Rightarrow> JStr [] | Some v \<Rightarrow> v) of
             JStr q \<Rightarrow>
               let query = strip q in
               if query = [] then ((ErrorBody (ascii ''Query is required''), 400), tr)
               else
                 (case retrieve_documents retrieve tr query 3 of
                    (Inl e, tr1) \<Rightarrow> (internal_error e, tr1)
                  | (Inr results, tr1) \<Rightarrow>
                      if results = [] then ((AnswerBody NO_INFO [], 200), tr1)
                      else
                        let context =
                              join [10, 10] (map (\<lambda>d. doc_get d (ascii ''content'') []) results);
                            (answer, tr2) = generate_answer chat tr1 query context;
                            answer' =
                              (if length (py_split_ws answer) < 10
                               then (case relevant_sentences lower query context of
                                       s # _ \<Rightarrow> found_prefix @ strip s @ ascii ''.''
                                     | [] \<Rightarrow> NO_INFO)
                               else answer);
                            sources = list_of_set order
                              (map (\<lambda>d. doc_get d (ascii ''source'') (ascii ''Unknown'')) results)
                        in ((AnswerBody answer' sources, 200), tr2))
           | v \<Rightarrow> (internal_error (AttributeError (py_type_name v) (ascii ''strip'')), tr))
      | Inr v \<Rightarrow> (internal_error (AttributeError (py_type_name v) (ascii ''get'')), tr))"

text \<open>The calls to the chat model in a trace.\<close>

definition chat_calls :: "trace \<Rightarrow> event list" where
  "chat_calls tr = filter is_chat_call tr"

definition retrieve_calls :: "trace \<Rightarrow> event list" where
  "retrieve_calls tr = filter is_retrieve_call tr"

text \<open>The first element of a list that satisfies a test, as the specification words it.\<close>

definition first_match :: "(ustr \<Rightarrow> ustr) \<Rightarrow> ustr \<Rightarrow> ustr \<Rightarrow> ustr option" where
  "first_match lower query context =
     find (\<lambda>s. \<exists>word \<in> set (py_split_ws (lower query)). contains word (lower s))
          (py_split 46 context)"

text \<open>
  The documents made from the embedded chunks: the chunk index counts them from \<open>start\<close>.
\<close>

definition assemble :: "ustr \<Rightarrow> nat \<Rightarrow> (nat \<times> ustr \<times> 'e) list \<Rightarrow> 'e document list" where
  "assemble pdf_path start es =
     map (\<lambda>(i, page_num, chunk, emb).
            \<lparr>content = chunk, embedding = emb, source = file_name pdf_path,
             page = page_num, chunk_index = i\<rparr>)
         (enumerate start es)"

text \<open>Two embedding services to run the ingestion on: one that always answers, one that
  fails on the chunk \<open>b\<close>.\<close>

definition ok_api :: "nat embed_api" where
  "ok_api tr c = Inr (length c)"

definition flaky_api :: "nat embed_api" where
  "flaky_api tr c = (if c = [98] then Inl (Error (ascii ''timeout'')) else Inr (length c))"

subsection \<open>The front ends as the specification words them\<close>

text \<open>
  The context and the sources of a result list, the answer that replaces a short one, and
  services and requests to run the front ends on.
\<close>

definition canned_retrieve :: "doc list \<Rightarrow> retrieve_api" where
  "canned_retrieve results tr query top_k = Inr results"

definition canned_chat :: "ustr \<Rightarrow> chat_api" where
  "canned_chat reply tr sys usr = Inr reply"

definition fallback_text :: "(ustr \<Rightarrow> ustr) \<Rightarrow> ustr \<Rightarrow> ustr \<Rightarrow> ustr" where
  "fallback_text lower query context =
     (case first_match lower query context of
        Some s \<Rightarrow> found_prefix @ strip s @ ascii ''.''
      | None \<Rightarrow> NO_INFO)"

definition context_of :: "doc list \<Rightarrow> ustr" where
  "context_of results = join [10, 10] (map (\<lambda>d. doc_get d (ascii ''content'') []) results)"

definition sources_of :: "doc list \<Rightarrow> ustr list" where
  "sources_of results = map (\<lambda>d. doc_get d (ascii ''source'') (ascii ''Unknown'')) results"

definition leave_doc :: doc where
  "leave_doc = [ascii ''content'' \<mapsto> ascii ''Leave: 20 days. Ask HR'',
                ascii ''source'' \<mapsto> ascii ''a.pdf'']"

definition leave_request :: "exn + json" where
  "leave_request = Inr (JObj [(ascii ''query'', JStr (ascii '' leave ''))])"

section \<open>Properties of the chunker\<close>

lemma ceil_div_ceiling: "ceil_div a b = \<lceil>real_of_int a / real_of_int b\<rceil>"
  by (simp add: ceil_div_def ceiling_divide_eq_div)

lemma ceil_div_nonpos: "0 < b \<Longrightarrow> a \<le> 0 \<Longrightarrow> ceil_div a b \<le> 0"
  by (simp add: ceil_div_def pos_imp_zdiv_nonneg_iff)

lemma ceil_div_step: "0 < b \<Longrightarrow> ceil_div a b = 1 + ceil_div (a - b) b"
proof -
  assume b: "0 < b"
  have "(- (a - b)) div b = (- a) div b + 1"
    using b div_add_self2 [of b "- a"] by (simp add: algebra_simps)
  then show ?thesis by (simp add: ceil_div_def)
qed

lemma ceil_div_pos: "0 < b \<Longrightarrow> 0 < a \<Longrightarrow> 0 < ceil_div a b"
proof -
  assume b: "0 < b" and a: "0 < a"
  have "(- a) div b < 0" using a b by (simp add: div_neg_pos_less0)
  then show ?thesis by (simp add: ceil_div_def)
qed

lemma count_bound: "0 < b \<Longrightarrow> (int k * b < a) = (int k < ceil_div a b)"
proof (induction k arbitrary: a)
  case 0
  show ?case
  proof (cases "0 < a")
    case True
    with 0 show ?thesis by (simp add: ceil_div_pos)
  next
    case False
    with 0 ceil_div_nonpos [of b a] show ?thesis by simp
  qed
next
  case (Suc k)
  have "(int (Suc k) * b < a) = (int k * b < a - b)" by (simp add: algebra_simps)
  also have "\<dots> = (int k < ceil_div (a - b) b)" using Suc by simp
  also have "\<dots> = (int (Suc k) < ceil_div a b)"
    using ceil_div_step [OF Suc.prems, of a] by simp
  finally show ?case .
qed

lemma chunk_loop_eq:
  assumes step: "0 < S - O'"
  shows "chunk_loop text S O' start acc =
     Some (acc @ filter nonblank
        (map (\<lambda>j. py_slice text (start + int j * (S - O')) (start + int j * (S - O') + S))
             [0..<nat (ceil_div (int (length text) - start) (S - O'))]))"
proof (induction "nat (ceil_div (int (length text) - start) (S - O'))" arbitrary: start acc)
  case 0
  then have "ceil_div (int (length text) - start) (S - O') \<le> 0" by simp
  then have "\<not> start < int (length text)"
    using ceil_div_pos [OF step, of "int (length text) - start"] by fastforce
  with 0 show ?case by (subst chunk_loop.simps) simp
next
  case (Suc n)
  let ?L = "int (length text)" and ?d = "S - O'"
  let ?w = "\<lambda>s j. py_slice text (s + int j * ?d) (s + int j * ?d + S)"
  from Suc.hyps(2) have pos: "0 < ceil_div (?L - start) ?d" by simp
  then have lt: "start < ?L"
    using ceil_div_nonpos [OF step, of "?L - start"] by fastforce
  have cnt: "ceil_div (?L - start) ?d = 1 + ceil_div (?L - (start + ?d)) ?d"
    using ceil_div_step [OF step, of "?L - start"] by (simp add: algebra_simps)
  with Suc.hyps(2) have n: "n = nat (ceil_div (?L - (start + ?d)) ?d)" by simp
  have shift: "map (?w start) [0..<Suc n] = ?w start 0 # map (?w (start + ?d)) [0..<n]"
    by (simp add: upt_conv_Cons map_Suc_upt [symmetric] algebra_simps del: upt_Suc)
  have "chunk_loop text S O' start acc =
      chunk_loop text S O' (start + ?d)
        (if strip (py_slice text start (start + S)) \<noteq> [] then acc @ [py_slice text start (start + S)] else acc)"
    using lt by (subst chunk_loop.simps) simp
  also have "\<dots> = Some ((if strip (py_slice text start (start + S)) \<noteq> [] then acc @ [py_slice text start (start + S)] else acc)
       @ filter nonblank (map (?w (start + ?d)) [0..<n]))"
    using Suc.hyps(1) [OF n] n by simp
  also have "\<dots> = Some (acc @ filter nonblank (map (?w start) [0..<Suc n]))"
    unfolding shift by (simp add: nonblank_def)
  finally show ?case using Suc.hyps(2) by simp
qed


lemma split_text_into_chunks_eq:
  assumes "O' < S"
  shows "split_text_into_chunks text S O' = Some (filter nonblank (spec_windows text S O'))"
proof -
  from assms have step: "0 < S - O'" by simp
  show ?thesis
    unfolding split_text_into_chunks_def spec_windows_def window_count_def
    by (simp add: chunk_loop_eq [OF step] window_def [abs_def])
qed

lemma window_count_iff:
  "O' < S \<Longrightarrow> (k < window_count text S O') = (int k * (S - O') < int (length text))"
  using count_bound [of "S - O'" k "int (length text)"]
  by (auto simp: window_count_def)

lemma length_py_slice_le: "0 \<le> i \<Longrightarrow> 0 \<le> n \<Longrightarrow> length (py_slice xs i (i + n)) \<le> nat n"
  by (auto simp: py_slice_def slice_index_def Let_def)

lemma py_slice_nonneg:
  "0 \<le> i \<Longrightarrow> 0 \<le> j \<Longrightarrow> py_slice xs i j = take (nat j - nat i) (drop (nat i) xs)"
  by (auto simp: py_slice_def slice_index_def Let_def min_def)

lemma length_window_le: "0 \<le> S \<Longrightarrow> O' \<le> S \<Longrightarrow> length (window text S O' k) \<le> nat S"
  unfolding window_def by (rule length_py_slice_le) simp_all

lemma py_slice_append:
  assumes "0 \<le> i" "i \<le> j" "j \<le> l"
  shows "py_slice xs i l = py_slice xs i j @ py_slice xs j l"
proof -
  have "take (nat l - nat i) (drop (nat i) xs)
      = take (nat j - nat i) (drop (nat i) xs) @ take (nat l - nat j) (drop (nat j) xs)"
    using assms take_add [of "nat j - nat i" "nat l - nat j" "drop (nat i) xs"]
    by (simp add: nat_diff_distrib')
  with assms show ?thesis by (simp add: py_slice_nonneg)
qed

lemma chunk_loop_diverges:
  assumes "chunk_loop text S O' start acc = Some cs"
  shows "\<not> (S \<le> O' \<and> start < int (length text))"
proof (rule chunk_loop.raw_induct
    [where P = "\<lambda>text S O' start acc cs. \<not> (S \<le> O' \<and> start < int (length text))", OF _ assms])
  fix f :: "ustr \<Rightarrow> int \<Rightarrow> int \<Rightarrow> int \<Rightarrow> ustr list \<Rightarrow> ustr list option"
  fix t S O' start acc cs
  assume ih: "\<And>t S O' start acc cs. f t S O' start acc = Some cs
      \<Longrightarrow> \<not> (S \<le> O' \<and> start < int (length t))"
  assume eq: "(if start < int (length t)
      then f t S O' (start + (S - O'))
            (if strip (py_slice t start (start + S)) \<noteq> []
             then acc @ [py_slice t start (start + S)] else acc)
      else Some acc) = Some cs"
  show "\<not> (S \<le> O' \<and> start < int (length t))"
  proof
    assume a: "S \<le> O' \<and> start < int (length t)"
    with eq obtain acc' where "f t S O' (start + (S - O')) acc' = Some cs" by simp
    from ih [OF this] a show False by simp
  qed
qed

lemma split_text_into_chunks_diverges:
  "S \<le> O' \<Longrightarrow> text \<noteq> [] \<Longrightarrow> split_text_into_chunks text S O' = None"
proof (rule ccontr)
  assume a: "S \<le> O'" "text \<noteq> []" and "split_text_into_chunks text S O' \<noteq> None"
  then obtain cs where "chunk_loop text S O' 0 [] = Some cs"
    by (auto simp: split_text_into_chunks_def)
  from chunk_loop_diverges [OF this] a show False by simp
qed

lemma windows_share:
  assumes "0 < S" "0 \<le> O'" "O' < S" and full: "int k * (S - O') + S \<le> int (length text)"
  shows "window text S O' k
           = py_slice text (int k * (S - O')) (int (Suc k) * (S - O')) @ shared_part text S O' k"
    and "window text S O' (Suc k)
           = shared_part text S O' k @ py_slice text (int k * (S - O') + S) (int (Suc k) * (S - O') + S)"
    and "length (shared_part text S O' k) = nat O'"
proof -
  let ?a = "int k * (S - O')"
  have a: "0 \<le> ?a" using assms by simp
  have next_eq: "int (Suc k) * (S - O') = ?a + (S - O')" by (simp add: algebra_simps)
  show "window text S O' k = py_slice text ?a (int (Suc k) * (S - O')) @ shared_part text S O' k"
    unfolding window_def shared_part_def next_eq
    using assms a by (intro py_slice_append) simp_all
  show "window text S O' (Suc k)
      = shared_part text S O' k @ py_slice text (?a + S) (int (Suc k) * (S - O') + S)"
    unfolding window_def shared_part_def next_eq
    using assms a by (intro py_slice_append) simp_all
  have "length (shared_part text S O' k) = nat (?a + S) - nat (?a + (S - O'))"
    unfolding shared_part_def next_eq using assms a full
    by (simp add: py_slice_nonneg nat_le_iff)
  also have "\<dots> = nat O'" using assms a by (simp add: nat_diff_distrib' [symmetric])
  finally show "length (shared_part text S O' k) = nat O'" .
qed

section \<open>The claims about the chunker\<close>

lemmas eval_chunks = split_text_into_chunks_def chunk_loop.simps py_slice_def slice_index_def
  strip_def isspace_def nonblank_def window_def ceil_div_def

text \<open>
  Claim C2. For every text and all parameters with \<open>0 \<le> overlap < chunk_size\<close>,
  \<open>split_text_into_chunks\<close> returns: the start offset grows by the positive step
  \<open>chunk_size - overlap\<close> in each iteration. (With \<open>chunk_size \<le> overlap\<close> and a text
  that is not empty it does not return: \<open>split_text_into_chunks_diverges\<close>.)
\<close>

theorem split_text_into_chunks_terminates:
  "0 \<le> O' \<Longrightarrow> O' < S \<Longrightarrow> \<exists>cs. split_text_into_chunks text S O' = Some cs"
  by (simp add: split_text_into_chunks_eq)

text \<open>
  The hypotheses of C2 hold for a text of three characters, size 2 and overlap 1.
\<close>

theorem split_text_into_chunks_terminates_witness:
  "(0::int) \<le> 1 \<and> (1::int) < 2 \<and> (\<exists>cs. split_text_into_chunks [97, 98, 99] 2 1 = Some cs)"
  using split_text_into_chunks_terminates [of 1 2 "[97, 98, 99]"] by simp

text \<open>
  Claim C1 says that each pair of consecutive retained windows shares exactly \<open>O\<close>
  characters where the text is long enough. On the text \<open>a\<close>, space, tab, \<open>b\<close> with
  \<open>S = 2\<close> and \<open>O = 1\<close> the window at offset 1 is blank and is dropped, so that the first
  two retained windows are the windows 0 and 2: both have the full length 2, and the last
  character of the first is not the first character of the second.
\<close>

theorem retained_windows_overlap_counterexample:
  "split_text_into_chunks [97, 32, 9, 98] 2 1
     = Some [window [97, 32, 9, 98] 2 1 0, window [97, 32, 9, 98] 2 1 2, window [97, 32, 9, 98] 2 1 3]
   \<and> length (window [97, 32, 9, 98] 2 1 0) = 2
   \<and> length (window [97, 32, 9, 98] 2 1 2) = 2
   \<and> drop 1 (window [97, 32, 9, 98] 2 1 0) \<noteq> take 1 (window [97, 32, 9, 98] 2 1 2)"
  by (simp add: eval_chunks)

text \<open>
  Claim C1, as amended. For every text, every \<open>S > 0\<close> and every \<open>O\<close> with
  \<open>0 \<le> O < S\<close>, \<open>split_text_into_chunks\<close> returns exactly the windows
  \<open>text[k*(S-O) : k*(S-O)+S]\<close> for the \<open>k\<close> with \<open>k*(S-O) < len(text)\<close>, in order,
  keeping a window if and only if it is not empty after trimming; every returned chunk has
  at most \<open>S\<close> characters; and each window \<open>k\<close> that is full
  (\<open>k*(S-O)+S \<le> len(text)\<close>) shares exactly \<open>O\<close> characters with window \<open>k+1\<close>: the
  slice \<open>text[(k+1)*(S-O) : k*(S-O)+S]\<close> has \<open>O\<close> characters, ends window \<open>k\<close> and
  begins window \<open>k+1\<close>. This is a statement about windows next to each other before the
  blank ones are dropped, not about chunks next to each other in the result.
\<close>

theorem split_text_into_chunks_windows:
  assumes "0 < S" and "0 \<le> O'" and "O' < S"
  shows "split_text_into_chunks text S O' = Some (filter nonblank (spec_windows text S O'))
    \<and> (\<forall>k. (k < window_count text S O') = (int k * (S - O') < int (length text)))
    \<and> (\<forall>c \<in> set (filter nonblank (spec_windows text S O')). length c \<le> nat S)
    \<and> (\<forall>k. int k * (S - O') + S \<le> int (length text) \<longrightarrow>
          window text S O' k
            = py_slice text (int k * (S - O')) (int (Suc k) * (S - O')) @ shared_part text S O' k
        \<and> window text S O' (Suc k)
            = shared_part text S O' k
              @ py_slice text (int k * (S - O') + S) (int (Suc k) * (S - O') + S)
        \<and> length (shared_part text S O' k) = nat O')"
proof (intro conjI allI ballI impI)
  show "split_text_into_chunks text S O' = Some (filter nonblank (spec_windows text S O'))"
    using assms by (rule_tac split_text_into_chunks_eq)
next
  fix k show "(k < window_count text S O') = (int k * (S - O') < int (length text))"
    using assms by (rule_tac window_count_iff)
next
  fix c assume "c \<in> set (filter nonblank (spec_windows text S O'))"
  then obtain k where "c = window text S O' k" by (auto simp: spec_windows_def)
  then show "length c \<le> nat S" using assms length_window_le [of S O' "text" k] by simp
next
  fix k assume full: "int k * (S - O') + S \<le> int (length text)"
  from windows_share [OF assms full]
  show "window text S O' k
      = py_slice text (int k * (S - O')) (int (Suc k) * (S - O')) @ shared_part text S O' k"
   and "window text S O' (Suc k)
      = shared_part text S O' k @ py_slice text (int k * (S - O') + S) (int (Suc k) * (S - O') + S)"
   and "length (shared_part text S O' k) = nat O'"
    by simp_all
qed

text \<open>
  The amended C1 at the text of the counterexample.
\<close>

theorem split_text_into_chunks_windows_witness:
  "(0::int) < 2 \<and> (0::int) \<le> 1 \<and> (1::int) < 2
   \<and> split_text_into_chunks [97, 32, 9, 98] 2 1 = Some [[97, 32], [9, 98], [98]]
   \<and> int 0 * (2 - 1) + 2 \<le> int (length [97, 32, 9, 98::nat])
   \<and> shared_part [97, 32, 9, 98] 2 1 0 = [32]
   \<and> window [97, 32, 9, 98] 2 1 0 = [97] @ [32]
   \<and> window [97, 32, 9, 98] 2 1 1 = [32] @ [9]"
  using split_text_into_chunks_windows [of 2 1 "[97, 32, 9, 98]"]
  by (simp add: eval_chunks shared_part_def)

text \<open>
  Claim C3 gives the number of windows as \<open>\<lceil>(L-O)/(S-O)\<rceil>\<close>. A text of 25 letters
  with \<open>S = 10\<close> and \<open>O = 2\<close> has no blank window and gives the four chunks at the
  offsets 0, 8, 16 and 24, while \<open>\<lceil>(25-2)/(10-2)\<rceil> = 3\<close>.
\<close>

theorem number_of_chunks_counterexample:
  "list_all nonblank (spec_windows (ascii ''abcdefghijklmnopqrstuvwxy'') 10 2)
   \<and> split_text_into_chunks (ascii ''abcdefghijklmnopqrstuvwxy'') 10 2
       = Some [ascii ''abcdefghij'', ascii ''ijklmnopqr'', ascii ''qrstuvwxy'', ascii ''y'']
   \<and> length (ascii ''abcdefghijklmnopqrstuvwxy'') = 25
   \<and> ceil_div (25 - 2) (10 - 2) = 3"
  by (simp add: eval_chunks ascii_def spec_windows_def window_count_def upt_rec)

text \<open>
  Claim C3, as amended. For every text of length \<open>L\<close> with no blank window, chunking with
  size \<open>S\<close> and overlap \<open>O < S\<close> returns exactly \<open>\<lceil>L/(S-O)\<rceil>\<close> chunks, none of them
  blank (\<open>ceil_div\<close> is the ceiling of the quotient: \<open>ceil_div_ceiling\<close>).
\<close>

theorem number_of_chunks:
  assumes "O' < S" and "list_all nonblank (spec_windows text S O')"
  shows "\<exists>cs. split_text_into_chunks text S O' = Some cs
    \<and> int (length cs) = ceil_div (int (length text)) (S - O')
    \<and> list_all nonblank cs"
proof -
  have keep: "filter nonblank (spec_windows text S O') = spec_windows text S O'"
    using assms(2) by (simp add: list_all_iff)
  have "0 \<le> ceil_div (int (length text)) (S - O')"
    using assms(1) div_nonpos_pos_le0 [of "- int (length text)" "S - O'"]
    by (simp add: ceil_div_def)
  then have "int (length (spec_windows text S O')) = ceil_div (int (length text)) (S - O')"
    by (simp add: spec_windows_def window_count_def)
  with assms(2) keep show ?thesis
    using assms(1) by (simp add: split_text_into_chunks_eq)
qed

text \<open>
  The amended C3 at a text of four letters with size 4 and overlap 2: two chunks.
\<close>

theorem number_of_chunks_witness:
  "(2::int) < 4
   \<and> list_all nonblank (spec_windows [97, 98, 99, 100] 4 2)
   \<and> (\<exists>cs. split_text_into_chunks [97, 98, 99, 100] 4 2 = Some cs \<and> int (length cs) = 2)"
proof -
  have h: "list_all nonblank (spec_windows [97, 98, 99, 100] 4 2)"
    by (simp add: eval_chunks spec_windows_def window_count_def upt_rec)
  from number_of_chunks [of 2 4 "[97, 98, 99, 100]", OF _ h] h show ?thesis
    by (auto simp: ceil_div_def)
qed

section \<open>Properties of the ingestion\<close>

lemma strip_eq_Nil: "(strip w = []) = (\<forall>c \<in> set w. isspace c)"
proof -
  have "(dropWhile isspace (rev (dropWhile isspace w)) = []) = (dropWhile isspace w = [])"
  proof (cases "dropWhile isspace w")
    case Nil
    then show ?thesis by (auto simp: dropWhile_eq_Nil_conv dest: set_dropWhileD)
  next
    case (Cons x xs)
    then have "\<not> isspace x" using hd_dropWhile [of isspace w] by fastforce
    with Cons show ?thesis by (auto simp: dropWhile_eq_Nil_conv)
  qed
  then show ?thesis by (simp add: strip_def dropWhile_eq_Nil_conv)
qed

lemma nonblank_iff: "nonblank w = (\<exists>c \<in> set w. \<not> isspace c)"
  by (simp add: nonblank_def strip_eq_Nil)

lemma embedded_append:
  "embedded api tr (xs @ ys)
     = embedded api tr xs @ embedded api (tr @ map (EmbedCall \<circ> snd) xs) ys"
  by (induction xs arbitrary: tr) auto

lemma assemble_append:
  "assemble p n (xs @ ys) = assemble p n xs @ assemble p (n + length xs) ys"
  by (simp add: assemble_def enumerate_append_eq)

lemma assemble_Nil: "assemble p n [] = []"
  by (simp add: assemble_def)

lemma length_assemble: "length (assemble p n es) = length es"
  by (simp add: assemble_def)

lemma embed_chunks_eq:
  "embed_chunks api p pn chunks (docs, cnt, tr) =
     (docs @ assemble p cnt (embedded api tr (map (Pair pn) chunks)),
      cnt + length (embedded api tr (map (Pair pn) chunks)),
      tr @ map EmbedCall chunks)"
proof (induction chunks arbitrary: docs cnt tr)
  case Nil
  show ?case by (simp add: assemble_Nil)
next
  case (Cons c cs)
  show ?case
  proof (cases "api tr c")
    case (Inl e)
    then show ?thesis by (simp add: generate_embedding_def Cons.IH)
  next
    case (Inr emb)
    then show ?thesis
      by (simp add: generate_embedding_def Cons.IH assemble_def)
  qed
qed

lemma process_pages_eq:
  assumes "O' < S"
  shows "process_pages api p S O' pd (docs, cnt, tr) =
     (let fc = concat (map (\<lambda>(page_num, text).
                  map (Pair page_num) (filter nonblank (spec_windows text S O'))) pd);
          es = embedded api tr fc
      in Some (docs @ assemble p cnt es, cnt + length es, tr @ map (EmbedCall \<circ> snd) fc))"
proof (induction pd arbitrary: docs cnt tr)
  case Nil
  show ?case by (simp add: assemble_Nil)
next
  case (Cons a pd)
  obtain pn t where a: "a = (pn, t)" by (cases a)
  show ?case
    unfolding a
    by (simp add: split_text_into_chunks_eq [OF assms] embed_chunks_eq Cons.IH Let_def
        embedded_append assemble_append comp_def add.assoc)
qed

lemma process_pdf_eq:
  assumes "O' < S"
  shows "process_pdf api tr p pages S O' =
     Some (assemble p 0 (embedded api tr (file_chunks pages S O')),
           tr @ map (EmbedCall \<circ> snd) (file_chunks pages S O'))"
  by (simp add: process_pdf_def process_pages_eq [OF assms] Let_def file_chunks_def)

lemma chunk_index_assemble: "map chunk_index (assemble p n es) = [n..<n + length es]"
proof (induction es arbitrary: n)
  case Nil
  show ?case by (simp add: assemble_def)
next
  case (Cons e es)
  have "[n..<n + length (e # es)] = n # [Suc n..<Suc n + length es]"
    using upt_conv_Cons [of n "n + length (e # es)"] by simp
  with Cons [of "Suc n"] show ?case
    by (simp add: assemble_def case_prod_unfold)
qed

lemma content_assemble: "map content (assemble p n es) = map (fst \<circ> snd) es"
  by (induction es arbitrary: n) (simp_all add: assemble_def case_prod_unfold)

lemma page_assemble: "map page (assemble p n es) = map fst es"
  by (induction es arbitrary: n) (simp_all add: assemble_def case_prod_unfold)

lemma embedding_assemble: "map embedding (assemble p n es) = map (snd \<circ> snd) es"
  by (induction es arbitrary: n) (simp_all add: assemble_def case_prod_unfold)

lemma source_assemble: "map source (assemble p n es) = replicate (length es) (file_name p)"
  by (induction es arbitrary: n) (simp_all add: assemble_def case_prod_unfold)

lemma triples_assemble:
  "map (\<lambda>d. (page d, content d, embedding d)) (assemble p n es) = es"
  by (induction es arbitrary: n) (simp_all add: assemble_def case_prod_unfold)

lemma embedded_all_succeed:
  assumes "\<And>tr c. \<exists>e. api tr c = Inr e"
  shows "map (\<lambda>(page_num, chunk, emb). (page_num, chunk)) (embedded api tr xs) = xs"
proof (induction xs arbitrary: tr)
  case Nil
  show ?case by simp
next
  case (Cons x xs)
  obtain pn c where x: "x = (pn, c)" by (cases x)
  from assms obtain e where "api tr c = Inr e" by blast
  with Cons show ?case by (simp add: x)
qed

text \<open>The state that the two loops keep: the counter is the number of documents.\<close>

lemma embed_chunks_counter:
  assumes "embed_chunks api p pn chunks (docs, cnt, tr) = (docs', cnt', tr')"
    and "map chunk_index docs = [0..<length docs]" and "cnt = length docs"
  shows "map chunk_index docs' = [0..<length docs'] \<and> cnt' = length docs'"
  using assms
proof (induction chunks arbitrary: docs cnt tr)
  case Nil
  then show ?case by auto
next
  case (Cons c cs)
  show ?case
  proof (cases "api tr c")
    case (Inl e)
    with Cons.prems Cons.IH [of docs cnt "tr @ [EmbedCall c]"] show ?thesis
      by (simp add: generate_embedding_def)
  next
    case (Inr emb)
    let ?d = "\<lparr>content = c, embedding = emb, source = file_name p, page = pn, chunk_index = cnt\<rparr>"
    from Inr Cons.prems(1)
    have "embed_chunks api p pn cs (docs @ [?d], cnt + 1, tr @ [EmbedCall c]) = (docs', cnt', tr')"
      by (simp add: generate_embedding_def)
    from Cons.IH [OF this] Cons.prems(2,3) show ?thesis by simp
  qed
qed

lemma process_pages_counter:
  assumes "process_pages api p S O' pd (docs, cnt, tr) = Some (docs', cnt', tr')"
    and "map chunk_index docs = [0..<length docs]" and "cnt = length docs"
  shows "map chunk_index docs' = [0..<length docs']"
  using assms
proof (induction pd arbitrary: docs cnt tr)
  case Nil
  then show ?case by simp
next
  case (Cons a pd)
  obtain pn t where a: "a = (pn, t)" by (cases a)
  from Cons.prems(1) obtain chunks where ch: "split_text_into_chunks t S O' = Some chunks"
    by (auto simp: a split: option.splits)
  obtain d1 c1 t1 where st: "embed_chunks api p pn chunks (docs, cnt, tr) = (d1, c1, t1)"
    by (cases "embed_chunks api p pn chunks (docs, cnt, tr)")
  from embed_chunks_counter [OF st Cons.prems(2,3)]
  have inv: "map chunk_index d1 = [0..<length d1]" "c1 = length d1" by simp_all
  from Cons.prems(1) have "process_pages api p S O' pd (d1, c1, t1) = Some (docs', cnt', tr')"
    by (simp add: a ch st)
  from Cons.IH [OF this inv] show ?case .
qed

lemma process_pdf_chunk_index:
  assumes "process_pdf api tr p pages S O' = Some (docs, tr')"
  shows "map chunk_index docs = [0..<length docs]"
proof -
  from assms obtain cnt where
    "process_pages api p S O' (extract_text_from_pdf pages) ([], 0, tr) = Some (docs, cnt, tr')"
    by (auto simp: process_pdf_def split: option.splits)
  from process_pages_counter [OF this] show ?thesis by simp
qed

lemma spec_windows_2500:
  assumes "length text = 2500"
  shows "spec_windows text 1000 200
    = [py_slice text 0 1000, py_slice text 800 1800, py_slice text 1600 2600,
       py_slice text 2400 3400]"
  using assms by (simp add: spec_windows_def window_count_def ceil_div_def window_def upt_rec)

lemma py_slice_subset: "set (py_slice xs i j) \<subseteq> set xs"
  unfolding py_slice_def Let_def
  by (meson set_take_subset set_drop_subset subset_trans)

lemma extract_single:
  assumes "nonblank text"
  shows "extract_text_from_pdf [text] = [(1, text)]"
  using assms by (simp add: extract_text_from_pdf_def nonblank_def)

lemma blank_windows:
  "spec_windows (97 # replicate 2499 32) 1000 200
      = [97 # replicate 999 32, replicate 1000 32, replicate 900 32, replicate 100 32]"
  by (simp add: spec_windows_2500 py_slice_def slice_index_def)

lemma blank_page_chunks:
  "filter nonblank (spec_windows (97 # replicate 2499 32) 1000 200) = [97 # replicate 999 32]"
  unfolding blank_windows by (simp add: nonblank_iff isspace_def)

lemma file_name_hr: "file_name (ascii ''hr.pdf'') = ascii ''hr.pdf''"
  by (simp add: file_name_def py_split_def ascii_def)

text \<open>
  Claim C4 says that a single page of 2500 characters, with size 1000 and overlap 200 and
  every embedding succeeding, gives exactly 4 documents. The page made of the letter \<open>a\<close>
  and 2499 spaces has 2500 characters; its windows at the offsets 800, 1600 and 2400 are
  blank and are dropped, and \<open>process_pdf\<close> returns one document.
\<close>

theorem process_pdf_2500_counterexample:
  "length (97 # replicate 2499 (32::nat)) = 2500
   \<and> process_pdf (\<lambda>tr c. Inr (0::nat)) [] (ascii ''hr.pdf'') [97 # replicate 2499 32] 1000 200
     = Some ([\<lparr>content = 97 # replicate 999 32, embedding = 0, source = ascii ''hr.pdf'',
               page = 1, chunk_index = 0\<rparr>],
             [EmbedCall (97 # replicate 999 32)])"
proof -
  have nb: "nonblank (97 # replicate 2499 32)" by (simp add: nonblank_iff isspace_def)
  have fc: "file_chunks [97 # replicate 2499 32] 1000 200 = [(1, 97 # replicate 999 32)]"
    unfolding file_chunks_def extract_single [OF nb] by (simp add: blank_page_chunks)
  have pp: "process_pdf (\<lambda>tr c. Inr (0::nat)) [] (ascii ''hr.pdf'') [97 # replicate 2499 32] 1000 200
     = Some (assemble (ascii ''hr.pdf'') 0
               (embedded (\<lambda>tr c. Inr (0::nat)) [] (file_chunks [97 # replicate 2499 32] 1000 200)),
             [] @ map (EmbedCall \<circ> snd) (file_chunks [97 # replicate 2499 32] 1000 200))"
    by (rule process_pdf_eq) simp
  have as: "assemble (ascii ''hr.pdf'') 0 [(1, 97 # replicate 999 32, 0::nat)]
     = [\<lparr>content = 97 # replicate 999 32, embedding = 0, source = ascii ''hr.pdf'',
               page = 1, chunk_index = 0\<rparr>]"
    by (simp add: assemble_def file_name_hr)
  have len: "length (97 # replicate 2499 (32::nat)) = 2500" by simp
  show ?thesis
    unfolding pp fc by (simp only: len embedded.simps sum.case append_Nil append_Nil2 as
        list.map comp_apply snd_conv simp_thms)
qed

text \<open>
  Claim C4, as amended. For every input file the documents that \<open>process_pdf\<close> returns
  carry the chunk indices \<open>0, 1, 2, \<dots>\<close> in order, over the whole file and not per page
  (and \<open>process_pdf\<close> does return when \<open>overlap < chunk_size\<close>); in particular a single
  page of 2500 characters none of whose four windows is blank, with size 1000, overlap 200
  and every embedding succeeding, gives exactly 4 documents, whose chunks start at the
  offsets 0, 800, 1600 and 2400, with the chunk indices 0, 1, 2, 3 and the same source and
  page.
\<close>

theorem process_pdf_chunk_indices:
  "(\<forall>docs tr'. process_pdf api tr p pages S O' = Some (docs, tr') \<longrightarrow>
       map chunk_index docs = [0..<length docs] \<and> sorted_wrt (<) (map chunk_index docs))
   \<and> (O' < S \<longrightarrow> (\<exists>docs tr'. process_pdf api tr p pages S O' = Some (docs, tr')))
   \<and> (length page_text = 2500 \<and> list_all nonblank (spec_windows page_text 1000 200)
        \<and> (\<forall>tr c. \<exists>e. api tr c = Inr e) \<longrightarrow>
       (\<exists>docs tr'. process_pdf api tr p [page_text] 1000 200 = Some (docs, tr')
          \<and> map content docs = [py_slice page_text 0 1000, py_slice page_text 800 1800,
                                 py_slice page_text 1600 2600, py_slice page_text 2400 3400]
          \<and> map chunk_index docs = [0, 1, 2, 3]
          \<and> map source docs = replicate 4 (file_name p)
          \<and> map page docs = replicate 4 1))"
proof (intro conjI allI impI)
  fix docs tr'
  assume r: "process_pdf api tr p pages S O' = Some (docs, tr')"
  from process_pdf_chunk_index [OF r]
  show idx: "map chunk_index docs = [0..<length docs]" .
  show "sorted_wrt (<) (map chunk_index docs)"
    unfolding idx by simp
next
  assume "O' < S"
  then show "\<exists>docs tr'. process_pdf api tr p pages S O' = Some (docs, tr')"
    by (simp add: process_pdf_eq)
next
  assume h: "length page_text = 2500 \<and> list_all nonblank (spec_windows page_text 1000 200)
    \<and> (\<forall>tr c. \<exists>e. api tr c = Inr e)"
  define ws where "ws = [py_slice page_text 0 1000, py_slice page_text 800 1800,
      py_slice page_text 1600 2600, py_slice page_text 2400 3400]"
  from h have sw: "spec_windows page_text 1000 200 = ws"
    by (simp add: spec_windows_2500 ws_def)
  with h have all: "list_all nonblank ws" by simp
  then have "nonblank (py_slice page_text 0 1000)" by (simp add: ws_def)
  then have nb: "nonblank page_text"
    using py_slice_subset [of page_text 0 1000] by (auto simp: nonblank_iff)
  have keep: "filter nonblank ws = ws" using all by (simp add: list_all_iff)
  have fc: "file_chunks [page_text] 1000 200 = map (Pair 1) ws"
    by (simp add: file_chunks_def extract_single [OF nb] sw keep)
  define es where "es = embedded api tr (map (Pair 1) ws)"
  from h have ok: "\<And>tr c. \<exists>e. api tr c = Inr e" by blast
  have es: "map (\<lambda>(page_num, chunk, emb). (page_num, chunk)) es = map (Pair 1) ws"
    unfolding es_def by (rule embedded_all_succeed [OF ok])
  have "length es = length (map (Pair (1::nat)) ws)"
    using arg_cong [OF es, of length] by simp
  then have len: "length es = 4" by (simp add: ws_def)
  have "map (fst \<circ> snd) es = map snd (map (\<lambda>(page_num, chunk, emb). (page_num, chunk)) es)"
    by (simp add: comp_def case_prod_unfold)
  then have c: "map (fst \<circ> snd) es = ws" unfolding es by (simp add: comp_def)
  have "map fst es = map fst (map (\<lambda>(page_num, chunk, emb). (page_num, chunk)) es)"
    by (simp add: comp_def case_prod_unfold)
  then have pg: "map fst es = replicate (length ws) 1"
    unfolding es by (simp add: comp_def map_replicate_const)
  have ix: "[0..<4] = [0, 1, 2, 3::nat]" by (simp add: upt_rec)
  have lw: "length ws = 4" by (simp add: ws_def)
  have pp: "process_pdf api tr p [page_text] 1000 200
      = Some (assemble p 0 es, tr @ map (EmbedCall \<circ> snd) (map (Pair 1) ws))"
    using process_pdf_eq [of 200 1000 api tr p "[page_text]"] by (simp only: fc es_def) simp
  have f1: "map content (assemble p 0 es) = ws"
    by (simp only: content_assemble c)
  have f2: "map chunk_index (assemble p 0 es) = [0, 1, 2, 3]"
    by (simp only: chunk_index_assemble len ix add_0)
  have f3: "map source (assemble p 0 es) = replicate 4 (file_name p)"
    by (simp only: source_assemble len)
  have f4: "map page (assemble p 0 es) = replicate 4 1"
    by (simp only: page_assemble pg lw)
  show "\<exists>docs tr'. process_pdf api tr p [page_text] 1000 200 = Some (docs, tr')
          \<and> map content docs = [py_slice page_text 0 1000, py_slice page_text 800 1800,
                                 py_slice page_text 1600 2600, py_slice page_text 2400 3400]
          \<and> map chunk_index docs = [0, 1, 2, 3]
          \<and> map source docs = replicate 4 (file_name p)
          \<and> map page docs = replicate 4 1"
    unfolding ws_def [symmetric]
    by (intro exI conjI) (rule pp, rule f1, rule f2, rule f3, rule f4)
qed

text \<open>
  The amended C4 at a page of 2500 letters, and at a file of two pages.
\<close>

theorem process_pdf_chunk_indices_witness:
  "length (replicate 2500 (97::nat)) = 2500
   \<and> list_all nonblank (spec_windows (replicate 2500 97) 1000 200)
   \<and> (\<exists>docs tr'. process_pdf ok_api [] (ascii ''hr.pdf'') [replicate 2500 97] 1000 200
                     = Some (docs, tr')
          \<and> map chunk_index docs = [0, 1, 2, 3]
          \<and> map page docs = replicate 4 1)
   \<and> (0::int) < 1
   \<and> (\<exists>docs tr'. process_pdf ok_api [] (ascii ''hr.pdf'') [[97, 98], [99]] 1 0 = Some (docs, tr')
          \<and> map chunk_index docs = [0..<length docs])"
proof -
  have a: "list_all nonblank (spec_windows (replicate 2500 97) 1000 200)"
    by (simp add: spec_windows_2500 py_slice_def slice_index_def nonblank_iff isspace_def)
  have b: "\<forall>tr c. \<exists>e. ok_api tr c = Inr e" by (simp add: ok_api_def)
  have len: "length (replicate 2500 (97::nat)) = 2500" by simp
  note t = process_pdf_chunk_indices [where api = ok_api and tr = "[]" and p = "ascii ''hr.pdf''"
      and pages = "[[97, 98], [99]]" and S = 1 and O' = 0 and page_text = "replicate 2500 97"]
  from mp [OF t [THEN conjunct2, THEN conjunct2] conjI [OF len conjI [OF a b]]]
  obtain docs3 tr3 where
    r3: "process_pdf ok_api [] (ascii ''hr.pdf'') [replicate 2500 97] 1000 200 = Some (docs3, tr3)"
    and i3: "map chunk_index docs3 = [0, 1, 2, 3]"
    and p3: "map page docs3 = replicate 4 1"
    by (elim exE conjE)
  have c3: "\<exists>docs tr'. process_pdf ok_api [] (ascii ''hr.pdf'') [replicate 2500 97] 1000 200
                     = Some (docs, tr')
          \<and> map chunk_index docs = [0, 1, 2, 3]
          \<and> map page docs = replicate 4 1"
    by (intro exI conjI) (rule r3, rule i3, rule p3)
  have lt: "(0::int) < 1" by simp
  from mp [OF t [THEN conjunct2, THEN conjunct1] lt]
  obtain docs tr' where
    r: "process_pdf ok_api [] (ascii ''hr.pdf'') [[97, 98], [99]] 1 0 = Some (docs, tr')"
    by (elim exE)
  from t [THEN conjunct1, THEN spec, THEN spec, THEN mp, OF r]
  have i: "map chunk_index docs = [0..<length docs]" by (rule conjunct1)
  have c2: "\<exists>docs tr'. process_pdf ok_api [] (ascii ''hr.pdf'') [[97, 98], [99]] 1 0
      = Some (docs, tr') \<and> map chunk_index docs = [0..<length docs]"
    by (intro exI conjI) (rule r, rule i)
  from len a c3 lt c2 show ?thesis by (intro conjI)
qed

lemma process_pdf_diverges:
  assumes "S \<le> O'" and "extract_text_from_pdf pages \<noteq> []"
  shows "process_pdf api tr p pages S O' = None"
proof -
  from assms(2) obtain pn t rest where e: "extract_text_from_pdf pages = (pn, t) # rest"
    by (cases "extract_text_from_pdf pages") auto
  then have "(pn, t) \<in> set (extract_text_from_pdf pages)" by simp
  then have "strip t \<noteq> []" by (auto simp: extract_text_from_pdf_def)
  then have "t \<noteq> []" by (auto simp: strip_def)
  with assms(1) have "split_text_into_chunks t S O' = None"
    by (rule split_text_into_chunks_diverges)
  then show ?thesis by (simp add: process_pdf_def e)
qed

lemma file_chunks_no_pages:
  "extract_text_from_pdf pages = [] \<Longrightarrow> file_chunks pages S O' = []"
  by (simp add: file_chunks_def)

lemma process_pdf_no_pages:
  "extract_text_from_pdf pages = [] \<Longrightarrow> process_pdf api tr p pages S O' = Some ([], tr)"
  by (simp add: process_pdf_def)

text \<open>
  Claim C7. In \<open>process_pdf\<close> a failure of the embedding call of one chunk is caught and
  that chunk alone is skipped. Whenever \<open>process_pdf\<close> returns, it has called the embedding
  service once for every chunk of every page in order, whatever the earlier calls gave,
  and the documents it returns are exactly the chunks whose call succeeded, with the
  embedding returned; there is no path on which a failed call ends it. It does return when
  \<open>overlap < chunk_size\<close> (otherwise the chunker does not return on a page with text:
  \<open>process_pdf_diverges\<close>).
\<close>

theorem process_pdf_isolates_failures:
  "(O' < S \<longrightarrow>
      (\<exists>docs. process_pdf api tr p pages S O'
         = Some (docs, tr @ map (EmbedCall \<circ> snd) (file_chunks pages S O'))))
   \<and> (\<forall>docs tr'. process_pdf api tr p pages S O' = Some (docs, tr') \<longrightarrow>
        tr' = tr @ map (EmbedCall \<circ> snd) (file_chunks pages S O')
        \<and> map (\<lambda>d. (page d, content d, embedding d)) docs
            = embedded api tr (file_chunks pages S O'))"
proof (intro conjI allI impI)
  assume "O' < S"
  then show "\<exists>docs. process_pdf api tr p pages S O'
         = Some (docs, tr @ map (EmbedCall \<circ> snd) (file_chunks pages S O'))"
    by (simp add: process_pdf_eq)
next
  fix docs tr'
  assume r: "process_pdf api tr p pages S O' = Some (docs, tr')"
  have "tr' = tr @ map (EmbedCall \<circ> snd) (file_chunks pages S O')
      \<and> map (\<lambda>d. (page d, content d, embedding d)) docs
          = embedded api tr (file_chunks pages S O')"
  proof (cases "O' < S")
    case True
    with r show ?thesis by (auto simp: process_pdf_eq triples_assemble)
  next
    case False
    with r process_pdf_diverges [of S O' pages api tr p]
    have e: "extract_text_from_pdf pages = []" by fastforce
    with r show ?thesis by (simp add: process_pdf_no_pages file_chunks_no_pages)
  qed
  then show "tr' = tr @ map (EmbedCall \<circ> snd) (file_chunks pages S O')"
    and "map (\<lambda>d. (page d, content d, embedding d)) docs
          = embedded api tr (file_chunks pages S O')"
    by simp_all
qed

text \<open>
  C7 at a file of two pages and three chunks, the embedding of the second chunk failing:
  the first and the third chunk are returned, with the indices 0 and 1.
\<close>

theorem process_pdf_isolates_failures_witness:
  "(0::int) < 1
   \<and> file_chunks [[97, 98], [99]] 1 0 = [(1, [97]), (1, [98]), (2, [99])]
   \<and> embedded flaky_api [] [(1, [97]), (1, [98]), (2, [99])] = [(1, [97], 1), (2, [99], 1)]
   \<and> (\<exists>docs. process_pdf flaky_api [] (ascii ''hr.pdf'') [[97, 98], [99]] 1 0
        = Some (docs, [EmbedCall [97], EmbedCall [98], EmbedCall [99]])
     \<and> map (\<lambda>d. (page d, content d, embedding d)) docs = [(1, [97], 1), (2, [99], 1)]
     \<and> map chunk_index docs = [0, 1])"
proof -
  have ex: "extract_text_from_pdf [[97, 98], [99]] = [(1, [97, 98]), (2, [99])]"
    by (simp add: extract_text_from_pdf_def strip_eq_Nil isspace_def upt_rec)
  have w1: "filter nonblank (spec_windows [97, 98] 1 0) = [[97], [98]]"
    by (simp add: spec_windows_def window_count_def ceil_div_def window_def py_slice_def
        slice_index_def nonblank_iff isspace_def upt_rec)
  have w2: "filter nonblank (spec_windows [99] 1 0) = [[99]]"
    by (simp add: spec_windows_def window_count_def ceil_div_def window_def py_slice_def
        slice_index_def nonblank_iff isspace_def upt_rec)
  have fc: "file_chunks [[97, 98], [99]] 1 0 = [(1, [97]), (1, [98]), (2, [99])]"
    unfolding file_chunks_def ex by (simp add: w1 w2)
  have em: "embedded flaky_api [] [(1, [97]), (1, [98]), (2, [99])] = [(1, [97], 1), (2, [99], 1)]"
    by (simp add: flaky_api_def)
  have lt: "(0::int) < 1" by simp
  note t = process_pdf_isolates_failures [where O' = 0 and S = 1 and api = flaky_api
      and tr = "[]" and p = "ascii ''hr.pdf''" and pages = "[[97, 98], [99]]"]
  from mp [OF t [THEN conjunct1] lt]
  obtain docs where d1: "process_pdf flaky_api [] (ascii ''hr.pdf'') [[97, 98], [99]] 1 0
        = Some (docs, [] @ map (EmbedCall \<circ> snd) (file_chunks [[97, 98], [99]] 1 0))"
    by (elim exE)
  from t [THEN conjunct2, THEN spec, THEN spec, THEN mp, OF d1]
  have d2: "map (\<lambda>d. (page d, content d, embedding d)) docs
        = embedded flaky_api [] (file_chunks [[97, 98], [99]] 1 0)"
    by (rule conjunct2)
  have tr: "[] @ map (EmbedCall \<circ> snd) (file_chunks [[97, 98], [99]] 1 0)
      = [EmbedCall [97], EmbedCall [98], EmbedCall [99]]"
    unfolding fc by simp
  have e2: "map (\<lambda>d. (page d, content d, embedding d)) docs = [(1, [97], 1), (2, [99], 1)]"
    using d2 unfolding fc em .
  have "length (map (\<lambda>d. (page d, content d, embedding d)) docs) = 2"
    unfolding e2 by simp
  then have l2: "length docs = 2" by simp
  have "map chunk_index docs = [0..<length docs]"
    by (rule process_pdf_chunk_index [OF d1])
  then have ix: "map chunk_index docs = [0, 1]" unfolding l2 by (simp add: upt_rec)
  have "\<exists>docs. process_pdf flaky_api [] (ascii ''hr.pdf'') [[97, 98], [99]] 1 0
        = Some (docs, [EmbedCall [97], EmbedCall [98], EmbedCall [99]])
     \<and> map (\<lambda>d. (page d, content d, embedding d)) docs = [(1, [97], 1), (2, [99], 1)]
     \<and> map chunk_index docs = [0, 1]"
    by (intro exI conjI) (rule d1 [unfolded tr], rule e2, rule ix)
  with lt fc em show ?thesis by (intro conjI)
qed

section \<open>Properties of the generator and of the front ends\<close>

text \<open>
  Claim C10. \<open>generate_answer\<close> returns the fixed sentence at once, with no call to the
  chat model (the trace is unchanged), whenever the context is empty or contains the
  substring \<open>No relevant documents\<close>: a retrieved context that is not empty and happens to
  include that phrase is never sent to the chat model.
\<close>

theorem generate_answer_short_circuit:
  assumes "context = [] \<or> contains (ascii ''No relevant documents'') context"
  shows "generate_answer chat tr query context = (NO_INFO, tr)
    \<and> chat_calls (snd (generate_answer chat tr query context)) = chat_calls tr"
  using assms by (auto simp: generate_answer_def)

lemma contains_prefix: "contains w (w @ ys)"
proof (cases "w @ ys")
  case Nil
  then show ?thesis by simp
next
  case (Cons a l)
  have "take (length w) (w @ ys) = w" by simp
  then show ?thesis unfolding Cons by simp
qed

lemma contains_append: "contains w (xs @ w @ ys)"
  by (induction xs) (simp_all add: contains_prefix)

text \<open>
  C10 at a context that is not empty and contains the phrase.
\<close>

theorem generate_answer_short_circuit_witness:
  "contains (ascii ''No relevant documents'')
       (ascii ''Policy: '' @ ascii ''No relevant documents'' @ ascii '' are kept.'')
   \<and> generate_answer (canned_chat (ascii ''yes'')) [] (ascii ''leave'')
       (ascii ''Policy: '' @ ascii ''No relevant documents'' @ ascii '' are kept.'') = (NO_INFO, [])"
  using generate_answer_short_circuit [of
      "ascii ''Policy: '' @ ascii ''No relevant documents'' @ ascii '' are kept.''"
      "canned_chat (ascii ''yes'')" "[]" "ascii ''leave''"]
    contains_append [of "ascii ''No relevant documents''" "ascii ''Policy: ''" "ascii '' are kept.''"]
  by simp

lemma find_filter: "find P xs = (case filter P xs of [] \<Rightarrow> None | x # _ \<Rightarrow> Some x)"
  by (induction xs) auto

lemma relevant_first_match:
  "(case relevant_sentences lower query context of
      s # _ \<Rightarrow> found_prefix @ strip s @ ascii ''.'' | [] \<Rightarrow> NO_INFO)
   = fallback_text lower query context"
  using find_filter [of "\<lambda>s. list_ex (\<lambda>word. contains word (lower s)) (py_split_ws (lower query))"
      "py_split 46 context"]
  by (simp add: fallback_text_def first_match_def relevant_sentences_def list_ex_iff
      split: list.splits)

lemma rag_eq:
  assumes "retrieve tr query 3 = Inr results" and "results \<noteq> []"
    and "generate_answer chat (tr @ [RetrieveCall query 3]) query (context_of results)
           = (answer, tr2)"
  shows "rag_answer_question retrieve chat lower tr query =
     (Inr ((if length (py_split_ws answer) < 10
            then fallback_text lower query (context_of results) else answer)
           @ sources_header @ join [10] (sources_of results)), tr2)"
  using assms
  by (simp add: rag_answer_question_def retrieve_documents_def Let_def context_of_def
      sources_of_def relevant_first_match)

lemma flask_eq:
  assumes "map_of items (ascii ''query'') = Some (JStr q)" and "strip q \<noteq> []"
    and "retrieve tr (strip q) 3 = Inr results" and "results \<noteq> []"
    and "generate_answer chat (tr @ [RetrieveCall (strip q) 3]) (strip q) (context_of results)
           = (answer, tr2)"
  shows "flask_answer_question retrieve chat lower order tr (Inr (JObj items)) =
     ((AnswerBody (if length (py_split_ws answer) < 10
                   then fallback_text lower (strip q) (context_of results) else answer)
                  (list_of_set order (sources_of results)), 200), tr2)"
  using assms
  by (simp add: flask_answer_question_def retrieve_documents_def Let_def context_of_def
      sources_of_def relevant_first_match)


lemma leave_content: "doc_get leave_doc (ascii ''content'') [] = ascii ''Leave: 20 days. Ask HR''"
  by (simp add: doc_get_def leave_doc_def ascii_def)

lemma leave_source: "doc_get leave_doc (ascii ''source'') (ascii ''Unknown'') = ascii ''a.pdf''"
  by (simp add: doc_get_def leave_doc_def ascii_def)

lemma leave_context: "context_of [leave_doc] = ascii ''Leave: 20 days. Ask HR''"
  by (simp add: context_of_def leave_content)

lemma leave_sources: "sources_of [leave_doc] = [ascii ''a.pdf'']"
  by (simp add: sources_of_def leave_source)

lemma strip_leave: "strip (ascii '' leave '') = ascii ''leave''"
  by (simp add: strip_def ascii_def isspace_def)

lemma leave_no_phrase:
  "\<not> contains (ascii ''No relevant documents'') (ascii ''Leave: 20 days. Ask HR'')"
  by (simp add: ascii_def)

lemma leave_answer:
  "generate_answer (canned_chat (ascii ''Yes.'')) tr query (ascii ''Leave: 20 days. Ask HR'')
     = (ascii ''Yes.'', tr @ [ChatCall system_prompt
          (user_prompt query (ascii ''Leave: 20 days. Ask HR''))])"
proof -
  have "strip (ascii ''Yes.'') = ascii ''Yes.''" by (simp add: strip_def ascii_def isspace_def)
  moreover have "ascii ''Leave: 20 days. Ask HR'' \<noteq> []" by (simp add: ascii_def)
  ultimately show ?thesis
    by (simp add: generate_answer_def leave_no_phrase canned_chat_def)
qed

lemma yes_words: "length (py_split_ws (ascii ''Yes.'')) = 1"
  by (simp add: py_split_ws_def ascii_def isspace_def)

lemma leave_first_match:
  "first_match ascii_lower (ascii ''leave'') (ascii ''Leave: 20 days. Ask HR'')
     = Some (ascii ''Leave: 20 days'')"
  by (simp add: first_match_def py_split_def py_split_ws_def ascii_lower_def ascii_def
      isspace_def)

lemma leave_fallback:
  "fallback_text ascii_lower (ascii ''leave'') (ascii ''Leave: 20 days. Ask HR'')
     = found_prefix @ ascii ''Leave: 20 days.''"
proof -
  have "strip (ascii ''Leave: 20 days'') = ascii ''Leave: 20 days''"
    by (simp add: strip_def ascii_def isspace_def)
  then show ?thesis
    by (simp add: fallback_text_def leave_first_match) (simp add: ascii_def)
qed


text \<open>
  Claim C5 says that the composer returns the first matching sentence of the context. For
  the query \<open>leave\<close>, the context \<open>Leave: 20 days. Ask HR\<close> and the model's answer \<open>Yes.\<close>
  the first matching sentence is \<open>Leave: 20 days\<close>, and both composers answer with the
  text \<open>Here's what I found: Leave: 20 days.\<close> (the command-line one followed by its block
  of sources), which is not that sentence.
\<close>

theorem short_answer_fallback_counterexample:
  "first_match ascii_lower (ascii ''leave'') (context_of [leave_doc])
     = Some (ascii ''Leave: 20 days'')
   \<and> fst (flask_answer_question (canned_retrieve [leave_doc]) (canned_chat (ascii ''Yes.''))
            ascii_lower id [] leave_request)
     = (AnswerBody (found_prefix @ ascii ''Leave: 20 days.'') [ascii ''a.pdf''], 200)
   \<and> fst (rag_answer_question (canned_retrieve [leave_doc]) (canned_chat (ascii ''Yes.''))
            ascii_lower [] (ascii ''leave''))
     = Inr (found_prefix @ ascii ''Leave: 20 days.'' @ sources_header @ ascii ''a.pdf'')
   \<and> found_prefix @ ascii ''Leave: 20 days.'' \<noteq> ascii ''Leave: 20 days''"
proof -
  have q: "map_of [(ascii ''query'', JStr (ascii '' leave ''))] (ascii ''query'')
      = Some (JStr (ascii '' leave ''))" by simp
  have ne: "strip (ascii '' leave '') \<noteq> []" unfolding strip_leave by (simp add: ascii_def)
  have r: "canned_retrieve [leave_doc] [] (strip (ascii '' leave '')) 3 = Inr [leave_doc]"
    by (simp add: canned_retrieve_def)
  have g: "generate_answer (canned_chat (ascii ''Yes.''))
        ([] @ [RetrieveCall (strip (ascii '' leave '')) 3]) (strip (ascii '' leave ''))
        (context_of [leave_doc])
      = (ascii ''Yes.'', ([] @ [RetrieveCall (strip (ascii '' leave '')) 3])
          @ [ChatCall system_prompt (user_prompt (strip (ascii '' leave ''))
               (ascii ''Leave: 20 days. Ask HR''))])"
    unfolding leave_context by (rule leave_answer)
  have f: "fst (flask_answer_question (canned_retrieve [leave_doc]) (canned_chat (ascii ''Yes.''))
            ascii_lower id [] leave_request)
     = (AnswerBody (found_prefix @ ascii ''Leave: 20 days.'') [ascii ''a.pdf''], 200)"
    unfolding leave_request_def
    using flask_eq [where retrieve = "canned_retrieve [leave_doc]" and tr = "[]"
        and results = "[leave_doc]" and chat = "canned_chat (ascii ''Yes.'')"
        and lower = ascii_lower and order = id, OF q ne r _ g]
    by (simp add: yes_words strip_leave leave_context leave_fallback leave_sources
        list_of_set_def)
  have r': "canned_retrieve [leave_doc] [] (ascii ''leave'') 3 = Inr [leave_doc]"
    by (simp add: canned_retrieve_def)
  have g': "generate_answer (canned_chat (ascii ''Yes.''))
        ([] @ [RetrieveCall (ascii ''leave'') 3]) (ascii ''leave'') (context_of [leave_doc])
      = (ascii ''Yes.'', ([] @ [RetrieveCall (ascii ''leave'') 3])
          @ [ChatCall system_prompt (user_prompt (ascii ''leave'')
               (ascii ''Leave: 20 days. Ask HR''))])"
    unfolding leave_context by (rule leave_answer)
  have c: "fst (rag_answer_question (canned_retrieve [leave_doc]) (canned_chat (ascii ''Yes.''))
            ascii_lower [] (ascii ''leave''))
     = Inr (found_prefix @ ascii ''Leave: 20 days.'' @ sources_header @ ascii ''a.pdf'')"
    using rag_eq [where retrieve = "canned_retrieve [leave_doc]" and tr = "[]"
        and results = "[leave_doc]" and chat = "canned_chat (ascii ''Yes.'')"
        and lower = ascii_lower, OF r' _ g']
    by (simp add: yes_words leave_context leave_fallback leave_sources)
  have d: "found_prefix @ ascii ''Leave: 20 days.'' \<noteq> ascii ''Leave: 20 days''"
    by (simp add: found_prefix_def ascii_def)
  from leave_first_match f c d show ?thesis by (simp only: leave_context simp_thms)
qed


text \<open>
  Claim C5, as amended. When the results are not empty and the answer of
  \<open>generate_answer\<close> has fewer than 10 words separated by whitespace, both composers
  discard it; the answer is then \<open>Here's what I found: \<close> followed by the first piece of
  the context between periods that contains a word of the query (both in lower case),
  trimmed, and a period, or the fixed sentence when no piece matches. The HTTP composer
  returns it as the answer of a 200 response, the command-line one returns it followed by
  its block of sources.
\<close>

theorem short_answer_fallback:
  "(retrieve tr query 3 = Inr results \<and> results \<noteq> []
      \<and> generate_answer chat (tr @ [RetrieveCall query 3]) query (context_of results)
            = (answer, tr2)
      \<and> length (py_split_ws answer) < 10 \<longrightarrow>
    rag_answer_question retrieve chat lower tr query
      = (Inr (fallback_text lower query (context_of results)
              @ sources_header @ join [10] (sources_of results)), tr2))
   \<and> (map_of items (ascii ''query'') = Some (JStr q) \<and> strip q \<noteq> []
      \<and> retrieve tr (strip q) 3 = Inr results \<and> results \<noteq> []
      \<and> generate_answer chat (tr @ [RetrieveCall (strip q) 3]) (strip q) (context_of results)
            = (answer', tr2')
      \<and> length (py_split_ws answer') < 10 \<longrightarrow>
    flask_answer_question retrieve chat lower order tr (Inr (JObj items))
      = ((AnswerBody (fallback_text lower (strip q) (context_of results))
                     (list_of_set order (sources_of results)), 200), tr2'))"
proof (intro conjI impI)
  assume h: "retrieve tr query 3 = Inr results \<and> results \<noteq> []
      \<and> generate_answer chat (tr @ [RetrieveCall query 3]) query (context_of results)
            = (answer, tr2)
      \<and> length (py_split_ws answer) < 10"
  then have a: "retrieve tr query 3 = Inr results" and b: "results \<noteq> []"
    and c: "generate_answer chat (tr @ [RetrieveCall query 3]) query (context_of results)
            = (answer, tr2)"
    and d: "length (py_split_ws answer) < 10" by simp_all
  show "rag_answer_question retrieve chat lower tr query
      = (Inr (fallback_text lower query (context_of results)
              @ sources_header @ join [10] (sources_of results)), tr2)"
    using rag_eq [of retrieve tr query results chat answer tr2 lower, OF a b c] d by simp
next
  assume h: "map_of items (ascii ''query'') = Some (JStr q) \<and> strip q \<noteq> []
      \<and> retrieve tr (strip q) 3 = Inr results \<and> results \<noteq> []
      \<and> generate_answer chat (tr @ [RetrieveCall (strip q) 3]) (strip q) (context_of results)
            = (answer', tr2')
      \<and> length (py_split_ws answer') < 10"
  then have a: "map_of items (ascii ''query'') = Some (JStr q)" and a': "strip q \<noteq> []"
    and b: "retrieve tr (strip q) 3 = Inr results" and b': "results \<noteq> []"
    and c: "generate_answer chat (tr @ [RetrieveCall (strip q) 3]) (strip q) (context_of results)
            = (answer', tr2')"
    and d: "length (py_split_ws answer') < 10" by simp_all
  show "flask_answer_question retrieve chat lower order tr (Inr (JObj items))
      = ((AnswerBody (fallback_text lower (strip q) (context_of results))
                     (list_of_set order (sources_of results)), 200), tr2')"
    using flask_eq [of items q retrieve tr results chat answer' tr2' lower order, OF a a' b b' c] d
    by simp
qed

text \<open>
  The amended C5 at the input of the counterexample.
\<close>

theorem short_answer_fallback_witness:
  "canned_retrieve [leave_doc] [] (ascii ''leave'') 3 = Inr [leave_doc]
   \<and> generate_answer (canned_chat (ascii ''Yes.'')) ([] @ [RetrieveCall (ascii ''leave'') 3])
        (ascii ''leave'') (context_of [leave_doc])
      = (ascii ''Yes.'', [RetrieveCall (ascii ''leave'') 3,
           ChatCall system_prompt (user_prompt (ascii ''leave'') (context_of [leave_doc]))])
   \<and> length (py_split_ws (ascii ''Yes.'')) < 10
   \<and> rag_answer_question (canned_retrieve [leave_doc]) (canned_chat (ascii ''Yes.''))
        ascii_lower [] (ascii ''leave'')
      = (Inr (fallback_text ascii_lower (ascii ''leave'') (context_of [leave_doc])
              @ sources_header @ join [10] (sources_of [leave_doc])),
         [RetrieveCall (ascii ''leave'') 3,
          ChatCall system_prompt (user_prompt (ascii ''leave'') (context_of [leave_doc]))])
   \<and> map_of [(ascii ''query'', JStr (ascii '' leave ''))] (ascii ''query'')
        = Some (JStr (ascii '' leave ''))
   \<and> strip (ascii '' leave '') = ascii ''leave''
   \<and> flask_answer_question (canned_retrieve [leave_doc]) (canned_chat (ascii ''Yes.''))
        ascii_lower id [] (Inr (JObj [(ascii ''query'', JStr (ascii '' leave ''))]))
      = ((AnswerBody (fallback_text ascii_lower (ascii ''leave'') (context_of [leave_doc]))
                     (list_of_set id (sources_of [leave_doc])), 200),
         [RetrieveCall (ascii ''leave'') 3,
          ChatCall system_prompt (user_prompt (ascii ''leave'') (context_of [leave_doc]))])"
proof -
  let ?tr2 = "[RetrieveCall (ascii ''leave'') 3,
      ChatCall system_prompt (user_prompt (ascii ''leave'') (context_of [leave_doc]))]"
  have r: "canned_retrieve [leave_doc] [] (ascii ''leave'') 3 = Inr [leave_doc]"
    by (simp add: canned_retrieve_def)
  have ne: "[leave_doc] \<noteq> []" by simp
  have g: "generate_answer (canned_chat (ascii ''Yes.'')) ([] @ [RetrieveCall (ascii ''leave'') 3])
        (ascii ''leave'') (context_of [leave_doc]) = (ascii ''Yes.'', ?tr2)"
    unfolding leave_context by (simp add: leave_answer)
  have w: "length (py_split_ws (ascii ''Yes.'')) < 10" by (simp add: yes_words)
  have q: "map_of [(ascii ''query'', JStr (ascii '' leave ''))] (ascii ''query'')
      = Some (JStr (ascii '' leave ''))" by simp
  have sne: "strip (ascii '' leave '') \<noteq> []" unfolding strip_leave by (simp add: ascii_def)
  note t = short_answer_fallback [where retrieve = "canned_retrieve [leave_doc]" and tr = "[]"
      and query = "ascii ''leave''" and results = "[leave_doc]"
      and chat = "canned_chat (ascii ''Yes.'')" and answer = "ascii ''Yes.''" and ?tr2.0 = ?tr2
      and lower = ascii_lower and items = "[(ascii ''query'', JStr (ascii '' leave ''))]"
      and q = "ascii '' leave ''" and answer' = "ascii ''Yes.''" and tr2' = ?tr2 and order = id]
  have c1: "rag_answer_question (canned_retrieve [leave_doc]) (canned_chat (ascii ''Yes.''))
        ascii_lower [] (ascii ''leave'')
      = (Inr (fallback_text ascii_lower (ascii ''leave'') (context_of [leave_doc])
              @ sources_header @ join [10] (sources_of [leave_doc])), ?tr2)"
    by (rule mp [OF t [THEN conjunct1]]) (intro conjI r ne g w)
  have c2: "flask_answer_question (canned_retrieve [leave_doc]) (canned_chat (ascii ''Yes.''))
        ascii_lower id [] (Inr (JObj [(ascii ''query'', JStr (ascii '' leave ''))]))
      = ((AnswerBody (fallback_text ascii_lower (strip (ascii '' leave '')) (context_of [leave_doc]))
                     (list_of_set id (sources_of [leave_doc])), 200), ?tr2)"
    by (rule mp [OF t [THEN conjunct2]]) (intro conjI q sne w, simp_all add: strip_leave r g [simplified])
  from r g w c1 q strip_leave c2 show ?thesis by (simp only: strip_leave simp_thms)
qed


text \<open>
  Claim C6. When the retriever returns an empty list, the command-line composer returns
  exactly the fixed sentence (with no block of sources) and the HTTP composer returns the
  fixed sentence with an empty list of sources, status 200; the only call made is the one
  to the retriever, so there is no call to the chat model.
\<close>

theorem empty_results_fixed_sentence:
  "(retrieve tr query 3 = Inr [] \<longrightarrow>
      rag_answer_question retrieve chat lower tr query
        = (Inr NO_INFO, tr @ [RetrieveCall query 3])
      \<and> chat_calls (snd (rag_answer_question retrieve chat lower tr query)) = chat_calls tr)
   \<and> (map_of items (ascii ''query'') = Some (JStr q) \<and> strip q \<noteq> []
        \<and> retrieve tr (strip q) 3 = Inr [] \<longrightarrow>
      flask_answer_question retrieve chat lower order tr (Inr (JObj items))
        = ((AnswerBody NO_INFO [], 200), tr @ [RetrieveCall (strip q) 3])
      \<and> chat_calls (snd (flask_answer_question retrieve chat lower order tr (Inr (JObj items))))
          = chat_calls tr)"
  by (simp add: rag_answer_question_def flask_answer_question_def retrieve_documents_def
      chat_calls_def)

text \<open>
  C6 at the query \<open>leave\<close>, with a retriever that finds nothing.
\<close>

theorem empty_results_fixed_sentence_witness:
  "canned_retrieve [] [] (ascii ''leave'') 3 = Inr []
   \<and> rag_answer_question (canned_retrieve []) (canned_chat (ascii ''Yes.'')) ascii_lower []
        (ascii ''leave'')
      = (Inr NO_INFO, [RetrieveCall (ascii ''leave'') 3])
   \<and> map_of [(ascii ''query'', JStr (ascii '' leave ''))] (ascii ''query'')
        = Some (JStr (ascii '' leave ''))
   \<and> strip (ascii '' leave '') = ascii ''leave''
   \<and> flask_answer_question (canned_retrieve []) (canned_chat (ascii ''Yes.'')) ascii_lower id []
        (Inr (JObj [(ascii ''query'', JStr (ascii '' leave ''))]))
      = ((AnswerBody NO_INFO [], 200), [RetrieveCall (ascii ''leave'') 3])
   \<and> chat_calls [RetrieveCall (ascii ''leave'') 3] = []"
proof -
  have r: "canned_retrieve [] [] (ascii ''leave'') 3 = Inr []"
    by (simp add: canned_retrieve_def)
  have r': "canned_retrieve [] [] (strip (ascii '' leave '')) 3 = Inr []"
    by (simp add: canned_retrieve_def)
  have q: "map_of [(ascii ''query'', JStr (ascii '' leave ''))] (ascii ''query'')
      = Some (JStr (ascii '' leave ''))" by simp
  have sne: "strip (ascii '' leave '') \<noteq> []" unfolding strip_leave by (simp add: ascii_def)
  note t = empty_results_fixed_sentence [where retrieve = "canned_retrieve []" and tr = "[]"
      and query = "ascii ''leave''" and chat = "canned_chat (ascii ''Yes.'')"
      and lower = ascii_lower and items = "[(ascii ''query'', JStr (ascii '' leave ''))]"
      and q = "ascii '' leave ''" and order = id]
  from mp [OF t [THEN conjunct1] r]
  have c1: "rag_answer_question (canned_retrieve []) (canned_chat (ascii ''Yes.'')) ascii_lower []
        (ascii ''leave'') = (Inr NO_INFO, [RetrieveCall (ascii ''leave'') 3])"
    by simp
  from mp [OF t [THEN conjunct2] conjI [OF q conjI [OF sne r']]]
  have c2: "flask_answer_question (canned_retrieve []) (canned_chat (ascii ''Yes.'')) ascii_lower
        id [] (Inr (JObj [(ascii ''query'', JStr (ascii '' leave ''))]))
      = ((AnswerBody NO_INFO [], 200), [RetrieveCall (ascii ''leave'') 3])"
    by (simp add: strip_leave)
  have c3: "chat_calls [RetrieveCall (ascii ''leave'') 3] = []" by (simp add: chat_calls_def)
  from r c1 q strip_leave c2 c3 show ?thesis by (intro conjI)
qed

text \<open>
  Claim C8 says that every request whose query field is missing gets the response 400. A
  request whose body is the JSON array \<open>[]\<close> has no query field; \<open>data.get\<close> raises
  \<open>AttributeError\<close> on the list, the handler's \<open>except Exception\<close> catches it, and the
  response is 500.
\<close>

theorem non_object_body_counterexample:
  "flask_answer_question (canned_retrieve []) (canned_chat (ascii ''Yes.'')) ascii_lower id []
      (Inr (JArr []))
    = ((ErrorBody (ascii ''Internal Server Error: ''
                   @ str_exn (AttributeError (ascii ''list'') (ascii ''get''))), 500), [])"
  by (simp add: flask_answer_question_def internal_error_def)

text \<open>
  Claim C8, as amended. For every request whose body is a JSON object in which the query
  field is missing, or is a string that is empty after trimming, the front end responds
  400 with the body \<open>{"error": "Query is required"}\<close> and does not call the retriever
  (the trace is unchanged).
\<close>

theorem blank_query_rejected:
  assumes "map_of items (ascii ''query'') = None
    \<or> (\<exists>q. map_of items (ascii ''query'') = Some (JStr q) \<and> strip q = [])"
  shows "flask_answer_question retrieve chat lower order tr (Inr (JObj items))
      = ((ErrorBody (ascii ''Query is required''), 400), tr)
    \<and> retrieve_calls (snd (flask_answer_question retrieve chat lower order tr (Inr (JObj items))))
      = retrieve_calls tr"
  using assms by (auto simp: flask_answer_question_def strip_def)

text \<open>
  The amended C8 at the empty object and at an object whose query is a space and a tab.
\<close>

theorem blank_query_rejected_witness:
  "map_of ([] :: (ustr \<times> json) list) (ascii ''query'') = None
   \<and> flask_answer_question (canned_retrieve [leave_doc]) (canned_chat (ascii ''Yes.''))
        ascii_lower id [] (Inr (JObj []))
      = ((ErrorBody (ascii ''Query is required''), 400), [])
   \<and> map_of [(ascii ''query'', JStr [32, 9])] (ascii ''query'') = Some (JStr [32, 9])
   \<and> strip [32, 9] = []
   \<and> flask_answer_question (canned_retrieve [leave_doc]) (canned_chat (ascii ''Yes.''))
        ascii_lower id [] (Inr (JObj [(ascii ''query'', JStr [32, 9])]))
      = ((ErrorBody (ascii ''Query is required''), 400), [])"
proof -
  have m: "map_of ([] :: (ustr \<times> json) list) (ascii ''query'') = None" by simp
  have q: "map_of [(ascii ''query'', JStr [32, 9])] (ascii ''query'') = Some (JStr [32, 9])"
    by simp
  have s: "strip [32, 9] = []" by (simp add: strip_def isspace_def)
  from blank_query_rejected [where items = "[]" and retrieve = "canned_retrieve [leave_doc]"
      and chat = "canned_chat (ascii ''Yes.'')" and lower = ascii_lower and order = id
      and tr = "[]", OF disjI1 [OF m]]
  have c1: "flask_answer_question (canned_retrieve [leave_doc]) (canned_chat (ascii ''Yes.''))
        ascii_lower id [] (Inr (JObj [])) = ((ErrorBody (ascii ''Query is required''), 400), [])"
    by (rule conjunct1)
  have "\<exists>q'. map_of [(ascii ''query'', JStr [32, 9])] (ascii ''query'') = Some (JStr q')
      \<and> strip q' = []"
    by (intro exI conjI) (rule q, rule s)
  from blank_query_rejected [where items = "[(ascii ''query'', JStr [32, 9])]"
      and retrieve = "canned_retrieve [leave_doc]"
      and chat = "canned_chat (ascii ''Yes.'')" and lower = ascii_lower and order = id
      and tr = "[]", OF disjI2 [OF this]]
  have c2: "flask_answer_question (canned_retrieve [leave_doc]) (canned_chat (ascii ''Yes.''))
        ascii_lower id [] (Inr (JObj [(ascii ''query'', JStr [32, 9])]))
      = ((ErrorBody (ascii ''Query is required''), 400), [])"
    by (rule conjunct1)
  from m c1 q s c2 show ?thesis by (intro conjI)
qed

lemma flask_sources_deduplicated:
  assumes "map_of items (ascii ''query'') = Some (JStr q)" and "strip q \<noteq> []"
    and "retrieve tr (strip q) 3 = Inr results" and "results \<noteq> []"
    and perm: "\<And>xs. distinct xs \<Longrightarrow> distinct (order xs) \<and> set (order xs) = set xs"
    and "flask_answer_question retrieve chat lower order tr (Inr (JObj items))
          = ((AnswerBody answer sources, status), tr')"
  shows "distinct sources \<and> set sources = set (sources_of results)"
proof -
  obtain a t2 where g:
    "generate_answer chat (tr @ [RetrieveCall (strip q) 3]) (strip q) (context_of results) = (a, t2)"
    by (cases "generate_answer chat (tr @ [RetrieveCall (strip q) 3]) (strip q) (context_of results)")
  from flask_eq [where retrieve = retrieve and tr = tr and results = results and chat = chat
      and lower = lower and order = order and items = items and q = q, OF assms(1-4) g] assms(6)
  have "sources = list_of_set order (sources_of results)" by simp
  with perm [of "remdups (sources_of results)"] show ?thesis by (simp add: list_of_set_def)
qed

lemma two_context:
  "context_of [leave_doc, leave_doc]
     = ascii ''Leave: 20 days. Ask HR'' @ [10, 10] @ ascii ''Leave: 20 days. Ask HR''"
  by (simp add: context_of_def leave_content)

lemma salary_fallback:
  "fallback_text ascii_lower (ascii ''salary'') (context_of [leave_doc, leave_doc]) = NO_INFO"
  unfolding two_context
  by (simp add: fallback_text_def first_match_def py_split_def
      py_split_ws_def ascii_lower_def ascii_def isspace_def)

lemma salary_answer:
  "generate_answer (canned_chat (ascii ''Yes.'')) tr query (context_of [leave_doc, leave_doc])
     = (ascii ''Yes.'', tr @ [ChatCall system_prompt
          (user_prompt query (context_of [leave_doc, leave_doc]))])"
proof -
  have "strip (ascii ''Yes.'') = ascii ''Yes.''" by (simp add: strip_def ascii_def isspace_def)
  moreover have "context_of [leave_doc, leave_doc] \<noteq> []"
    unfolding two_context by (simp add: ascii_def)
  moreover have "\<not> contains (ascii ''No relevant documents'') (context_of [leave_doc, leave_doc])"
    unfolding two_context by (simp add: ascii_def)
  ultimately show ?thesis
    by (simp add: generate_answer_def canned_chat_def)
qed

text \<open>
  Claim C9 at two results that have the same source \<open>a.pdf\<close>: the command-line composer
  appends the source twice, while the HTTP composer, which builds a set, returns it once
  (as \<open>flask_sources_deduplicated\<close> shows of it in general).
\<close>

theorem rag_sources_keep_duplicates:
  "sources_of [leave_doc, leave_doc] = [ascii ''a.pdf'', ascii ''a.pdf'']
   \<and> fst (rag_answer_question (canned_retrieve [leave_doc, leave_doc])
            (canned_chat (ascii ''Yes.'')) ascii_lower [] (ascii ''salary''))
     = Inr (NO_INFO @ sources_header @ ascii ''a.pdf'' @ [10] @ ascii ''a.pdf'')
   \<and> fst (flask_answer_question (canned_retrieve [leave_doc, leave_doc])
            (canned_chat (ascii ''Yes.'')) ascii_lower id []
            (Inr (JObj [(ascii ''query'', JStr (ascii ''salary''))])))
     = (AnswerBody NO_INFO [ascii ''a.pdf''], 200)"
proof -
  have so: "sources_of [leave_doc, leave_doc] = [ascii ''a.pdf'', ascii ''a.pdf'']"
    by (simp add: sources_of_def leave_source)
  have r: "canned_retrieve [leave_doc, leave_doc] [] (ascii ''salary'') 3
      = Inr [leave_doc, leave_doc]" by (simp add: canned_retrieve_def)
  have c: "fst (rag_answer_question (canned_retrieve [leave_doc, leave_doc])
            (canned_chat (ascii ''Yes.'')) ascii_lower [] (ascii ''salary''))
     = Inr (NO_INFO @ sources_header @ ascii ''a.pdf'' @ [10] @ ascii ''a.pdf'')"
    using rag_eq [where retrieve = "canned_retrieve [leave_doc, leave_doc]" and tr = "[]"
        and results = "[leave_doc, leave_doc]" and chat = "canned_chat (ascii ''Yes.'')"
        and lower = ascii_lower and query = "ascii ''salary''", OF r _ salary_answer]
    by (simp add: yes_words salary_fallback so)
  have q: "map_of [(ascii ''query'', JStr (ascii ''salary''))] (ascii ''query'')
      = Some (JStr (ascii ''salary''))" by simp
  have st: "strip (ascii ''salary'') = ascii ''salary''"
    by (simp add: strip_def ascii_def isspace_def)
  have sne: "strip (ascii ''salary'') \<noteq> []" unfolding st by (simp add: ascii_def)
  have r': "canned_retrieve [leave_doc, leave_doc] [] (strip (ascii ''salary'')) 3
      = Inr [leave_doc, leave_doc]" by (simp add: canned_retrieve_def)
  have f: "fst (flask_answer_question (canned_retrieve [leave_doc, leave_doc])
            (canned_chat (ascii ''Yes.'')) ascii_lower id []
            (Inr (JObj [(ascii ''query'', JStr (ascii ''salary''))])))
     = (AnswerBody NO_INFO [ascii ''a.pdf''], 200)"
    using flask_eq [where retrieve = "canned_retrieve [leave_doc, leave_doc]" and tr = "[]"
        and results = "[leave_doc, leave_doc]" and chat = "canned_chat (ascii ''Yes.'')"
        and lower = ascii_lower and order = id, OF q sne r' _ salary_answer]
    by (simp add: yes_words st salary_fallback so list_of_set_def)
  from so c f show ?thesis by (intro conjI)
qed

end
